(* ===== verification/Prelude.thy ===== *)
theory Prelude
  imports Main "HOL-Library.Word" "HOL-Library.List_Lexorder"
begin

text \<open>
  Shared ground of the development: the machine types of the Go program (bytes, \<open>uint32\<close>,
  \<open>uint64\<close>), big-endian encoding of \<open>uint32\<close> (\<^verbatim>\<open>encoding/binary\<close>), byte-slice comparison
  (\<^verbatim>\<open>bytes.Compare\<close>), the collections of simplification rules that the component theories feed,
  and two generic interfaces: a codec (an encoder with a left inverse) and a transition system
  with an invariant.
\<close>

named_theorems ip_simps \<open>rewriting of addresses and address keys\<close>
named_theorems pool_simps \<open>field equations of the primitive pool updates\<close>
named_theorems pool_intros \<open>preservation of the pool invariant\<close>

type_synonym byte = "8 word"
type_synonym u16 = "16 word"
type_synonym u32 = "32 word"
type_synonym u64 = "64 word"

unbundle bit_operations_syntax

subsection \<open>Definitions\<close>

text \<open>\<^verbatim>\<open>binary.BigEndian.Uint32\<close> and \<^verbatim>\<open>PutUint32\<close>. A slice shorter than four bytes panics in Go; the
  callers pass slices of four bytes, and the model returns 0 elsewhere.\<close>

fun BigEndian_Uint32 :: "byte list \<Rightarrow> u32" where
  "BigEndian_Uint32 (a # b # c # d # _) =
     push_bit 24 (ucast a) OR push_bit 16 (ucast b) OR push_bit 8 (ucast c) OR ucast d"
| "BigEndian_Uint32 _ = 0"

definition BigEndian_PutUint32 :: "u32 \<Rightarrow> byte list" where
  "BigEndian_PutUint32 v =
     [ucast (drop_bit 24 v), ucast (drop_bit 16 v), ucast (drop_bit 8 v), ucast v]"

text \<open>\<^verbatim>\<open>bytes.Compare\<close>: the lexicographic comparison of two byte slices.\<close>

fun bytes_Compare :: "byte list \<Rightarrow> byte list \<Rightarrow> int" where
  "bytes_Compare [] [] = 0"
| "bytes_Compare [] (_ # _) = -1"
| "bytes_Compare (_ # _) [] = 1"
| "bytes_Compare (a # as) (b # bs) =
     (if a < b then -1 else if b < a then 1 else bytes_Compare as bs)"

subsection \<open>Big-endian words\<close>

declare BigEndian_Uint32.simps [simp del]

lemma not_bit_byte: "8 \<le> n \<Longrightarrow> \<not> bit (b :: byte) n"
  using bit_imp_le_length [of b n] by auto

lemma BigEndian_roundtrip [simp]: "BigEndian_Uint32 (BigEndian_PutUint32 v) = v"
proof (rule bit_word_eqI)
  fix n assume "n < LENGTH(32)"
  then consider "n < 8" | "8 \<le> n" "n < 16" | "16 \<le> n" "n < 24" | "24 \<le> n" "n < 32"
    by fastforce
  then show "bit (BigEndian_Uint32 (BigEndian_PutUint32 v)) n = bit v n"
    unfolding BigEndian_PutUint32_def BigEndian_Uint32.simps
    by cases (auto simp: bit_simps)
qed

lemma BigEndian_PutUint32_Uint32 [simp]:
  "BigEndian_PutUint32 (BigEndian_Uint32 (a # b # c # d # r)) = [a, b, c, d]"
  unfolding BigEndian_PutUint32_def BigEndian_Uint32.simps
  by (auto intro!: bit_word_eqI simp: bit_simps not_bit_byte)

lemma length_BigEndian_PutUint32 [simp]: "length (BigEndian_PutUint32 v) = 4"
  by (simp add: BigEndian_PutUint32_def)

lemma BigEndian_PutUint32_inj [simp]:
  "BigEndian_PutUint32 v = BigEndian_PutUint32 w \<longleftrightarrow> v = w"
  by (metis BigEndian_roundtrip)

lemma length_4E:
  assumes "length xs = 4"
  obtains a b c d where "xs = [a, b, c, d]"
  using assms by (auto simp: length_Suc_conv numeral_eq_Suc)

lemma BigEndian_PutUint32_Uint32_4:
  "length xs = 4 \<Longrightarrow> BigEndian_PutUint32 (BigEndian_Uint32 xs) = xs"
  by (erule length_4E) simp

subsection \<open>Comparison of byte slices\<close>

lemma bytes_Compare_less_iff: "bytes_Compare xs ys < 0 \<longleftrightarrow> xs < ys"
  by (induction xs ys rule: bytes_Compare.induct) (auto)

lemma bytes_Compare_eq_iff: "bytes_Compare xs ys = 0 \<longleftrightarrow> xs = ys"
  by (induction xs ys rule: bytes_Compare.induct) auto

lemma bytes_Compare_le_iff: "bytes_Compare xs ys \<le> 0 \<longleftrightarrow> xs \<le> ys"
  using bytes_Compare_less_iff [of xs ys] bytes_Compare_eq_iff [of xs ys]
  by (auto simp: le_less)

subsection \<open>Generic interfaces\<close>

text \<open>An encoder with a decoder that inverts it on the valid values. Encodings of distinct valid
  values are then distinct, so an encoding can be used as a key.\<close>

locale codec =
  fixes enc :: "'a \<Rightarrow> 'b" and dec :: "'b \<Rightarrow> 'a option" and valid :: "'a \<Rightarrow> bool"
  assumes dec_enc: "valid x \<Longrightarrow> dec (enc x) = Some x"
begin

lemma enc_eq_iff: "valid x \<Longrightarrow> valid y \<Longrightarrow> enc x = enc y \<longleftrightarrow> x = y"
  using dec_enc by (metis option.inject)

lemma enc_inj_on: "(\<And>x. x \<in> A \<Longrightarrow> valid x) \<Longrightarrow> inj_on enc A"
  by (auto intro!: inj_onI simp: enc_eq_iff)

end

text \<open>A transition system whose steps keep an invariant keeps it along every run.\<close>

locale invariant_system =
  fixes step :: "'s \<Rightarrow> 's \<Rightarrow> bool" and inv :: "'s \<Rightarrow> bool"
  assumes step_inv: "step s t \<Longrightarrow> inv s \<Longrightarrow> inv t"
begin

lemma run_inv: "step\<^sup>*\<^sup>* s t \<Longrightarrow> inv s \<Longrightarrow> inv t"
  by (induction rule: rtranclp_induct) (auto intro: step_inv)

end

text \<open>Operations that commute and are idempotent on the states that satisfy an invariant: the result of
  a sequence of them depends only on the set of its members, so replicas that have received the same
  operations agree, whatever the order and the number of deliveries.\<close>

locale commuting_ops =
  fixes app :: "'u \<Rightarrow> 's \<Rightarrow> 's" and ok :: "'u \<Rightarrow> bool" and inv :: "'s \<Rightarrow> bool"
  assumes keep: "inv s \<Longrightarrow> ok u \<Longrightarrow> inv (app u s)"
    and commute: "inv s \<Longrightarrow> ok u \<Longrightarrow> ok v \<Longrightarrow> app u (app v s) = app v (app u s)"
    and idem: "inv s \<Longrightarrow> ok u \<Longrightarrow> app u (app u s) = app u s"
begin

lemma fold_keep: "inv s \<Longrightarrow> (\<And>u. u \<in> set us \<Longrightarrow> ok u) \<Longrightarrow> inv (fold app us s)"
  by (induction us arbitrary: s) (auto intro: keep)

lemma fold_swap: "inv s \<Longrightarrow> (\<And>u. u \<in> set us \<Longrightarrow> ok u) \<Longrightarrow> ok v \<Longrightarrow> fold app us (app v s) = app v (fold app us s)"
proof (induction us arbitrary: s)
  case (Cons u us)
  then have "fold app us (app u (app v s)) = fold app us (app v (app u s))" using commute by simp
  also have "\<dots> = app v (fold app us (app u s))" using Cons by (simp add: keep)
  finally show ?case by simp
qed simp

lemma fold_absorb: "inv s \<Longrightarrow> (\<And>u. u \<in> set us \<Longrightarrow> ok u) \<Longrightarrow> v \<in> set us \<Longrightarrow> fold app us (app v s) = fold app us s"
proof (induction us arbitrary: s)
  case (Cons u us)
  show ?case
  proof (cases "u = v")
    case True
    then show ?thesis using Cons.prems idem by simp
  next
    case False
    then have "fold app us (app v (app u s)) = fold app us (app u s)" using Cons by (simp add: keep)
    then show ?thesis using Cons.prems commute [of s u v] by simp
  qed
qed simp

lemma fold_absorb_all:
  "inv s \<Longrightarrow> (\<And>u. u \<in> set us \<Longrightarrow> ok u) \<Longrightarrow> set vs \<subseteq> set us \<Longrightarrow> fold app us (fold app vs s) = fold app us s"
  by (induction vs arbitrary: s) (auto simp: keep fold_absorb)

lemma fold_swap_all:
  "inv s \<Longrightarrow> (\<And>u. u \<in> set us \<Longrightarrow> ok u) \<Longrightarrow> (\<And>v. v \<in> set vs \<Longrightarrow> ok v) \<Longrightarrow>
     fold app us (fold app vs s) = fold app vs (fold app us s)"
proof (induction vs arbitrary: s)
  case (Cons v vs)
  then have "fold app us (fold app vs (app v s)) = fold app vs (fold app us (app v s))" by (simp add: keep)
  then show ?case using Cons.prems fold_swap [of s us v] by simp
qed simp

lemma converges:
  assumes "inv s" "\<And>u. u \<in> set us \<Longrightarrow> ok u" "set us = set vs"
  shows "fold app us s = fold app vs s"
proof -
  have "fold app us s = fold app us (fold app vs s)" using assms by (intro fold_absorb_all [symmetric]) auto
  also have "\<dots> = fold app vs (fold app us s)" using assms by (intro fold_swap_all) auto
  also have "\<dots> = fold app vs s" using assms by (intro fold_absorb_all) auto
  finally show ?thesis .
qed

end

end
