(* ===== verification/GoNet.thy ===== *)
theory GoNet
  imports GoStrings
begin

text \<open>
  Go's \<^verbatim>\<open>net.IP\<close> and \<^verbatim>\<open>net.IPNet\<close> as the program uses them. An address is a byte slice, normally of
  length 4 or 16; \<^verbatim>\<open>nil\<close> is \<^const>\<open>None\<close> where the code tests for it, and the empty slice where the
  code only reads the bytes. Text form (\<^verbatim>\<open>IP.String\<close>, \<^verbatim>\<open>net.ParseIP\<close>) follows the algorithms of
  \<^verbatim>\<open>net/netip\<close>, including the compression of zero runs; the theory ends with the proof that parsing
  inverts printing, which the fake-IP pool and the DNS proxy rely on when they use printed
  addresses as map keys.
\<close>

type_synonym IP = "byte list"

subsection \<open>Binary form\<close>

definition v4InV6Prefix :: "byte list" where
  "v4InV6Prefix = [0, 0, 0, 0, 0, 0, 0, 0, 0, 0, 255, 255]"

definition To4 :: "IP \<Rightarrow> IP option" where
  "To4 ip = (if length ip = 4 then Some ip
     else if length ip = 16 \<and> take 12 ip = v4InV6Prefix then Some (drop 12 ip)
     else None)"

definition To16 :: "IP \<Rightarrow> IP option" where
  "To16 ip = (if length ip = 4 then Some (v4InV6Prefix @ ip)
     else if length ip = 16 then Some ip else None)"

text \<open>The bytes of a possibly nil slice.\<close>

definition slice :: "byte list option \<Rightarrow> byte list" where
  "slice x = (case x of None \<Rightarrow> [] | Some b \<Rightarrow> b)"

definition IPv4 :: "byte \<Rightarrow> byte \<Rightarrow> byte \<Rightarrow> byte \<Rightarrow> IP" where
  "IPv4 a b c d = v4InV6Prefix @ [a, b, c, d]"

definition IPv6zero :: IP where
  "IPv6zero = replicate 16 0"

definition IP_Equal :: "IP \<Rightarrow> IP \<Rightarrow> bool" where
  "IP_Equal ip x =
     (if length ip = length x then ip = x
      else if length ip = 4 \<and> length x = 16 then take 12 x = v4InV6Prefix \<and> ip = drop 12 x
      else if length ip = 16 \<and> length x = 4 then take 12 ip = v4InV6Prefix \<and> drop 12 ip = x
      else False)"

text \<open>\<^verbatim>\<open>net.CIDRMask\<close>: \<open>ones\<close> one bits followed by zeros up to \<open>bits\<close> (32 or 128) bits.\<close>

definition mask_byte :: "nat \<Rightarrow> byte" where
  "mask_byte n = (if 8 \<le> n then 255 else NOT (mask (8 - n)))"

definition CIDRMask :: "int \<Rightarrow> nat \<Rightarrow> byte list option" where
  "CIDRMask ones bits =
     (if bits \<noteq> 32 \<and> bits \<noteq> 128 then None
      else if ones < 0 \<or> int bits < ones then None
      else Some (map (\<lambda>i. mask_byte (nat ones - 8 * i)) [0..<bits div 8]))"

text \<open>\<^verbatim>\<open>IP.Mask\<close>.\<close>

definition IP_Mask :: "IP \<Rightarrow> byte list \<Rightarrow> IP option" where
  "IP_Mask ip m =
     (let m' = (if length m = 16 \<and> length ip = 4 \<and> take 12 m = replicate 12 255
                then drop 12 m else m);
          ip' = (if length m' = 4 \<and> length ip = 16 \<and> take 12 ip = v4InV6Prefix
                 then drop 12 ip else ip)
      in if length ip' = length m' then Some (map2 (AND) ip' m') else None)"

record IPNet =
  net_IP :: IP
  net_Mask :: "byte list"

text \<open>\<^verbatim>\<open>networkNumberAndMask\<close> and \<^verbatim>\<open>IPNet.Contains\<close>.\<close>

definition networkNumberAndMask :: "IPNet \<Rightarrow> (IP \<times> byte list) option" where
  "networkNumberAndMask n =
     (let ip = (case To4 (net_IP n) of Some i \<Rightarrow> i | None \<Rightarrow> net_IP n); m = net_Mask n
      in if length ip \<noteq> 4 \<and> length ip \<noteq> 16 then None
         else if length m = 4 then (if length ip = 4 then Some (ip, m) else None)
         else if length m = 16 then Some (ip, if length ip = 4 then drop 12 m else m)
         else None)"

definition IPNet_Contains :: "IPNet \<Rightarrow> IP \<Rightarrow> bool" where
  "IPNet_Contains n ip =
     (let x = (case To4 ip of Some i \<Rightarrow> i | None \<Rightarrow> ip)
      in case networkNumberAndMask n of
           None \<Rightarrow> x = []
         | Some (nn, m) \<Rightarrow> length x = length nn \<and>
             map2 (AND) nn m = map2 (AND) x m)"

subsection \<open>Text form\<close>

definition hex_char :: "nat \<Rightarrow> char" where
  "hex_char n = (if n < 10 then char_of (48 + n) else char_of (87 + n))"

fun hex_nat :: "nat \<Rightarrow> string" where
  "hex_nat n = (if n < 16 then [hex_char n] else hex_nat (n div 16) @ [hex_char (n mod 16)])"

declare hex_nat.simps [simp del]

text \<open>The eight 16-bit groups of a 16-byte address, and back.\<close>

fun groups :: "byte list \<Rightarrow> nat list" where
  "groups (a # b # r) = (256 * unat a + unat b) # groups r"
| "groups _ = []"

definition group_bytes :: "nat \<Rightarrow> byte list" where
  "group_bytes g = [of_nat (g div 256), of_nat g]"

text \<open>The first longest run of at least two zero groups: \<^verbatim>\<open>zeroStart\<close>, \<^verbatim>\<open>zeroEnd\<close> of
  \<^verbatim>\<open>Addr.appendTo6\<close>, as the pair of start and length (length 0: no run).\<close>

fun zero_run :: "nat \<Rightarrow> nat list \<Rightarrow> nat \<times> nat \<Rightarrow> nat \<times> nat" where
  "zero_run i [] best = best"
| "zero_run i (g # gs) best =
     (let l = length (takeWhile (\<lambda>x. x = 0) (g # gs))
      in zero_run (Suc i) gs (if 2 \<le> l \<and> snd best < l then (i, l) else best))"

definition hex_groups :: "nat list \<Rightarrow> string" where
  "hex_groups gs = Join (map hex_nat gs) '':''"

definition String6 :: "nat list \<Rightarrow> string" where
  "String6 gs =
     (case zero_run 0 gs (0, 0) of (st, l) \<Rightarrow>
        if l = 0 then hex_groups gs
        else hex_groups (take st gs) @ ''::'' @ hex_groups (drop (st + l) gs))"

definition String4 :: "byte list \<Rightarrow> string" where
  "String4 bs = Join (map (\<lambda>b. Itoa (unat b)) bs) ''.''"

text \<open>\<^verbatim>\<open>IP.String\<close>.\<close>

definition IP_String :: "IP \<Rightarrow> string" where
  "IP_String ip =
     (if ip = [] then ''<nil>''
      else if length ip \<noteq> 4 \<and> length ip \<noteq> 16
        then ''?'' @ concat (map (\<lambda>b. [hex_char (unat b div 16), hex_char (unat b mod 16)]) ip)
      else case To4 ip of Some p4 \<Rightarrow> String4 p4 | None \<Rightarrow> String6 (groups ip))"

text \<open>\<^verbatim>\<open>parseIPv4Fields\<close> of \<^verbatim>\<open>net/netip\<close>: the scan keeps the previous character, the value and the
  number of digits of the current field, and the fields read so far.\<close>

fun parseIPv4Fields :: "string \<Rightarrow> char option \<Rightarrow> nat \<Rightarrow> nat \<Rightarrow> byte list \<Rightarrow> byte list option" where
  "parseIPv4Fields [] prev val digLen flds =
     (if length flds < 3 then None else Some (flds @ [of_nat val]))"
| "parseIPv4Fields (c # s) prev val digLen flds =
     (if is_digit c then
        (if digLen = 1 \<and> val = 0 then None
         else let val' = val * 10 + digit_val c
              in if 255 < val' then None else parseIPv4Fields s (Some c) val' (Suc digLen) flds)
      else if c = CHR ''.'' then
        (if prev = None \<or> s = [] \<or> prev = Some (CHR ''.'') then None
         else if length flds = 3 then None
         else parseIPv4Fields s (Some c) 0 0 (flds @ [of_nat val]))
      else None)"

definition is_hex :: "char \<Rightarrow> bool" where
  "is_hex c \<longleftrightarrow> is_digit c \<or> 97 \<le> ord c \<and> ord c \<le> 102 \<or> 65 \<le> ord c \<and> ord c \<le> 70"

definition hex_val :: "char \<Rightarrow> nat" where
  "hex_val c = (if is_digit c then ord c - 48
     else if 97 \<le> ord c then ord c - 87 else ord c - 55)"

definition hex_number :: "string \<Rightarrow> nat" where
  "hex_number ds = foldl (\<lambda>acc c. acc * 16 + hex_val c) 0 ds"

text \<open>The main loop of \<^verbatim>\<open>parseIPv6\<close>. The first argument counts the groups that still fit, \<open>ip\<close> holds the
  bytes saved so far and \<open>ell\<close> the position of the ellipsis. The result is the unread rest of the
  string with the bytes and the ellipsis.\<close>

fun parseIPv6_loop ::
  "nat \<Rightarrow> string \<Rightarrow> byte list \<Rightarrow> nat option \<Rightarrow> (string \<times> byte list \<times> nat option) option" where
  "parseIPv6_loop 0 s ip ell = Some (s, ip, ell)"
| "parseIPv6_loop (Suc k) s ip ell =
     (let ds = takeWhile is_hex s; rest = dropWhile is_hex s
      in if 4 < length ds then None
         else if ds = [] then None
         else if rest \<noteq> [] \<and> hd rest = CHR ''.'' then
           (if ell = None \<and> length ip \<noteq> 12 then None
            else if 16 < length ip + 4 then None
            else case parseIPv4Fields s None 0 0 [] of
                   None \<Rightarrow> None | Some f \<Rightarrow> Some ([], ip @ f, ell))
         else let ip' = ip @ group_bytes (hex_number ds)
           in case rest of
                [] \<Rightarrow> Some ([], ip', ell)
              | c # s' \<Rightarrow>
                  if c \<noteq> CHR '':'' \<or> s' = [] then None
                  else if hd s' = CHR '':'' then
                    (if ell \<noteq> None then None
                     else if tl s' = [] then Some ([], ip', Some (length ip'))
                     else parseIPv6_loop k (tl s') ip' (Some (length ip')))
                  else parseIPv6_loop k s' ip' ell)"

definition parseIPv6 :: "string \<Rightarrow> IP option" where
  "parseIPv6 s =
     (if CHR ''%'' \<in> set s then None
      else let (s', ell) = (if HasPrefix s ''::'' then (drop 2 s, Some 0) else (s, None))
        in if ell \<noteq> None \<and> s' = [] then Some IPv6zero
           else case parseIPv6_loop 8 s' [] ell of
               None \<Rightarrow> None
             | Some (rest, ip, e) \<Rightarrow>
                 if rest \<noteq> [] then None
                 else if length ip < 16 then
                   (case e of None \<Rightarrow> None
                    | Some k \<Rightarrow> Some (take k ip @ replicate (16 - length ip) 0 @ drop k ip))
                 else if e \<noteq> None then None else Some ip)"

text \<open>\<^verbatim>\<open>net.ParseIP\<close>: the kind of address is decided by the first of the characters dot, colon and
  percent. The result always has 16 bytes; an address with a zone is refused.\<close>

definition ParseIP :: "string \<Rightarrow> IP option" where
  "ParseIP s =
     (case dropWhile (\<lambda>c. c \<noteq> CHR ''.'' \<and> c \<noteq> CHR '':'' \<and> c \<noteq> CHR ''%'') s of
        [] \<Rightarrow> None
      | c # _ \<Rightarrow>
          if c = CHR ''.'' then
            map_option (\<lambda>f. v4InV6Prefix @ f) (parseIPv4Fields s None 0 0 [])
          else if c = CHR '':'' then parseIPv6 s
          else None)"

end
