(* ===== verification/GoNetText.thy ===== *)
theory GoNetText
  imports GoNet
begin

text \<open>
  Parsing inverts printing: \<^verbatim>\<open>net.ParseIP(ip.String())\<close> is the 16-byte form of \<open>ip\<close>, for every address of
  4 or 16 bytes. Printed addresses therefore identify addresses, and the pool may use them as keys.
\<close>

subsection \<open>Dotted decimal\<close>

lemma not_digit_dot [simp]: "\<not> is_digit (CHR ''.'')"
  by (simp add: is_digit_def ord_def)

lemma parse_Itoa:
  assumes "n \<le> 255"
  shows "\<exists>c. is_digit c \<and> parseIPv4Fields (Itoa n @ r) prev 0 0 fs
    = parseIPv4Fields r (Some c) n (length (Itoa n)) fs"
  using assms
proof (induction n arbitrary: r rule: Itoa.induct)
  case (1 n)
  show ?case
  proof (cases "n < 10")
    case True
    with 1 show ?thesis
      by (subst (1 2) Itoa.simps) (auto simp: Let_def intro!: exI [of _ "digit_char n"])
  next
    case False
    let ?d = "digit_char (n mod 10)"
    from False 1 obtain c where
      "parseIPv4Fields (Itoa (n div 10) @ ?d # r) prev 0 0 fs
        = parseIPv4Fields (?d # r) (Some c) (n div 10) (length (Itoa (n div 10))) fs"
      by fastforce
    moreover have "n div 10 * 10 + n mod 10 = n" "n div 10 \<noteq> 0" using False by auto
    ultimately show ?thesis using False 1(2)
      by (subst (1 2) Itoa.simps) (auto simp: Let_def intro!: exI [of _ ?d])
  qed
qed

lemma parse_Itoa_dot:
  assumes "n \<le> 255" "r \<noteq> []" "length fs < 3"
  shows "parseIPv4Fields (Itoa n @ CHR ''.'' # r) prev 0 0 fs
    = parseIPv4Fields r (Some (CHR ''.'')) 0 0 (fs @ [of_nat n])"
  using parse_Itoa [OF assms(1), of "CHR ''.'' # r" prev fs] assms(2,3) not_digit_dot by auto

lemma parse_Itoa_end:
  assumes "n \<le> 255" "length fs = 3"
  shows "parseIPv4Fields (Itoa n) prev 0 0 fs = Some (fs @ [of_nat n])"
  using parse_Itoa [OF assms(1), of "[]" prev fs] assms(2) by auto

lemma unat_byte_le: "unat (b :: byte) \<le> 255"
proof -
  have "unat b < 2 ^ LENGTH(8)" by (rule unsigned_less)
  then show ?thesis by simp
qed

lemma parse_String4: "length bs = 4 \<Longrightarrow> parseIPv4Fields (String4 bs) None 0 0 [] = Some bs"
  by (erule length_4E) (simp add: String4_def parse_Itoa_dot parse_Itoa_end unat_byte_le)

subsection \<open>Hexadecimal groups\<close>

lemma hex_char_facts:
  assumes "n < 16"
  shows "is_hex (hex_char n)" "hex_val (hex_char n) = n"
  using assms by (auto simp: is_hex_def hex_val_def hex_char_def is_digit_def ord_def)

lemma hex_nat_chars: "c \<in> set (hex_nat n) \<Longrightarrow> is_hex c"
proof (induction n rule: hex_nat.induct)
  case (1 n)
  then show ?case by (subst (asm) (2) hex_nat.simps) (auto simp: hex_char_facts split: if_splits)
qed

lemma hex_nat_nonempty [simp]: "hex_nat n \<noteq> []"
  by (subst hex_nat.simps) simp

lemma hex_number_hex_nat [simp]: "hex_number (hex_nat n) = n"
proof (induction n rule: hex_nat.induct)
  case (1 n)
  show ?case
  proof (cases "n < 16")
    case True
    then show ?thesis by (subst hex_nat.simps) (simp add: hex_number_def hex_char_facts)
  next
    case False
    with 1 have "hex_number (hex_nat (n div 16)) = n div 16" by blast
    with False show ?thesis
      by (subst hex_nat.simps) (simp add: hex_number_def hex_char_facts)
  qed
qed

lemma length_hex_nat: "n < 16 ^ Suc k \<Longrightarrow> length (hex_nat n) \<le> Suc k"
proof (induction k arbitrary: n)
  case 0
  then show ?case by (subst hex_nat.simps) simp
next
  case (Suc k)
  show ?case
  proof (cases "n < 16")
    case False
    have "n div 16 < 16 ^ Suc k" using Suc.prems by (simp add: less_mult_imp_div_less mult.commute)
    from Suc.IH [OF this] False show ?thesis by (subst hex_nat.simps) simp
  qed (subst hex_nat.simps, simp)
qed

lemma length_hex_group: "g < 65536 \<Longrightarrow> length (hex_nat g) \<le> 4"
  using length_hex_nat [of g 3] by simp

lemma not_hex_sep [simp]: "\<not> is_hex (CHR '':'')" "\<not> is_hex (CHR ''.'')" "\<not> is_hex (CHR ''%'')"
  by (simp_all add: is_hex_def is_digit_def ord_def)

lemma span_hex_nat:
  assumes "r = [] \<or> \<not> is_hex (hd r)"
  shows "takeWhile is_hex (hex_nat g @ r) = hex_nat g" "dropWhile is_hex (hex_nat g @ r) = r"
proof -
  have "\<forall>c \<in> set (hex_nat g). is_hex c" by (simp add: hex_nat_chars)
  then show "takeWhile is_hex (hex_nat g @ r) = hex_nat g" "dropWhile is_hex (hex_nat g @ r) = r"
    using assms by (cases r; simp)+
qed

lemma span_hex_nat_end [simp]:
  "takeWhile is_hex (hex_nat g) = hex_nat g" "dropWhile is_hex (hex_nat g) = []"
  using span_hex_nat [where r = "[]" and g = g] by simp_all

lemma hex_nat_hd: "hd (hex_nat g) \<noteq> CHR '':''"
  using hex_nat_chars [of "hd (hex_nat g)" g] not_hex_sep(1) by (metis hd_in_set hex_nat_nonempty)

lemma hex_groups_Nil [simp]: "hex_groups [] = []"
  by (simp add: hex_groups_def)

lemma hex_groups_single [simp]: "hex_groups [g] = hex_nat g"
  by (simp add: hex_groups_def)

lemma hex_groups_Cons [simp]:
  "gs \<noteq> [] \<Longrightarrow> hex_groups (g # gs) = hex_nat g @ CHR '':'' # hex_groups gs"
  by (simp add: hex_groups_def Join_Cons)

lemma hex_groups_eq_Nil [simp]: "hex_groups gs = [] \<longleftrightarrow> gs = []"
  by (cases gs rule: list.exhaust; cases "tl gs = []") (auto)

lemma hex_groups_hd: "gs \<noteq> [] \<Longrightarrow> hd (hex_groups gs) \<noteq> CHR '':''"
  by (cases gs; cases "tl gs = []") (auto simp: hex_nat_hd)

lemma hex_groups_chars: "c \<in> set (hex_groups gs) \<Longrightarrow> is_hex c \<or> c = CHR '':''"
proof (induction gs)
  case (Cons g gs)
  then show ?case by (cases "gs = []") (auto dest: hex_nat_chars)
qed simp

subsection \<open>The parser loop on printed groups\<close>

abbreviation group_list_bytes :: "nat list \<Rightarrow> byte list" where
  "group_list_bytes gs \<equiv> concat (map group_bytes gs)"

abbreviation small_groups :: "nat list \<Rightarrow> bool" where
  "small_groups gs \<equiv> \<forall>g \<in> set gs. g < 65536"

lemma length_group_list_bytes [simp]: "length (group_list_bytes gs) = 2 * length gs"
  by (induction gs) (auto simp: group_bytes_def)

declare parseIPv6_loop.simps(2) [simp del]

lemma parseIPv6_loop_colon:
  assumes "g < 65536" "s \<noteq> []" "hd s \<noteq> CHR '':''"
  shows "parseIPv6_loop (Suc k) (hex_nat g @ CHR '':'' # s) ip ell
    = parseIPv6_loop k s (ip @ group_bytes g) ell"
  using assms length_hex_group [OF assms(1)] by (simp add: parseIPv6_loop.simps(2) span_hex_nat Let_def)

lemma parseIPv6_loop_groups:
  assumes "gs \<noteq> []" "length gs \<le> k" "small_groups gs"
  shows "parseIPv6_loop k (hex_groups gs) ip ell = Some ([], ip @ group_list_bytes gs, ell)"
  using assms
proof (induction gs arbitrary: k ip)
  case (Cons g gs)
  then obtain k' where k: "k = Suc k'" by (cases k) auto
  show ?case
  proof (cases "gs = []")
    case True
    with Cons.prems k length_hex_group [of g] show ?thesis
      by (simp add: parseIPv6_loop.simps(2) Let_def)
  next
    case False
    with Cons k show ?thesis by (simp add: parseIPv6_loop_colon hex_groups_hd)
  qed
qed simp

lemma parseIPv6_loop_ellipsis:
  assumes "pre \<noteq> []" "length pre \<le> k" "small_groups pre"
  shows "parseIPv6_loop k (hex_groups pre @ ''::'' @ s) ip None =
    (let ip' = ip @ group_list_bytes pre in
     if s = [] then Some ([], ip', Some (length ip'))
     else parseIPv6_loop (k - length pre) s ip' (Some (length ip')))"
  using assms
proof (induction pre arbitrary: k ip)
  case (Cons g gs)
  then obtain k' where k: "k = Suc k'" by (cases k) auto
  show ?case
  proof (cases "gs = []")
    case True
    with Cons.prems k length_hex_group [of g] show ?thesis
      by (simp add: parseIPv6_loop.simps(2) Let_def span_hex_nat)
  next
    case False
    have "hd (hex_groups gs @ ''::'' @ s) \<noteq> CHR '':''"
      using False hex_groups_hd by simp
    with Cons k False show ?thesis
      by (simp add: parseIPv6_loop_colon Let_def add.assoc)
  qed
qed simp

subsection \<open>Zero runs\<close>

lemma zero_run_result:
  assumes "zero_run i gs best = (st, l)"
  shows "(st, l) = best \<or>
    (\<exists>j. st = i + j \<and> j + l \<le> length gs \<and> 2 \<le> l \<and> take l (drop j gs) = replicate l 0)"
  using assms
proof (induction i gs best rule: zero_run.induct)
  case (2 i g gs best)
  let ?l = "length (takeWhile (\<lambda>x. x = 0) (g # gs))"
  let ?best = "if 2 \<le> ?l \<and> snd best < ?l then (i, ?l) else best"
  have run: "zero_run (Suc i) gs ?best = (st, l)" using "2.prems" by (simp only: zero_run.simps Let_def)
  have tw: "take ?l (g # gs) = replicate ?l 0"
    by (metis (mono_tags, lifting) replicate_eqI set_takeWhileD takeWhile_eq_take)
  from "2.IH" [OF refl run] show ?case
  proof
    assume "(st, l) = ?best"
    then show ?thesis
      using tw length_takeWhile_le [of "\<lambda>x. x = 0" "g # gs"] by (auto split: if_splits)
  next
    assume "\<exists>j. st = Suc i + j \<and> j + l \<le> length gs \<and> 2 \<le> l \<and> take l (drop j gs) = replicate l 0"
    then obtain j where "st = Suc i + j" "j + l \<le> length gs" "2 \<le> l"
      "take l (drop j gs) = replicate l 0" by blast
    then show ?thesis by (intro disjI2 exI [of _ "Suc j"]) simp
  qed
qed simp

lemma zero_run_split:
  assumes "zero_run 0 gs (0, 0) = (st, l)" "l \<noteq> 0"
  shows "gs = take st gs @ replicate l 0 @ drop (st + l) gs" "2 \<le> l" "st + l \<le> length gs"
proof -
  from zero_run_result [OF assms(1)] assms(2)
  have *: "st + l \<le> length gs" "2 \<le> l" "take l (drop st gs) = replicate l 0" by auto
  then show "2 \<le> l" "st + l \<le> length gs" by simp_all
  have "drop st gs = take l (drop st gs) @ drop (st + l) gs"
    by (metis add.commute append_take_drop_id drop_drop)
  then show "gs = take st gs @ replicate l 0 @ drop (st + l) gs"
    by (metis *(3) append_take_drop_id)
qed

lemma group_list_bytes_zero: "concat (replicate l (group_bytes 0)) = replicate (2 * l) 0"
  by (induction l) (auto simp: group_bytes_def)

subsection \<open>Sixteen-byte addresses\<close>

lemma group_list_bytes_groups: "even (length bs) \<Longrightarrow> group_list_bytes (groups bs) = bs"
proof (induction bs rule: groups.induct)
  case (1 a b r)
  have "(256 * unat a + unat b) div 256 = unat a" using unat_byte_le [of b] by simp
  moreover have "(of_nat (256 * unat a + unat b) :: byte) = 256 * a + b"
    by simp
  moreover have "(256 :: byte) * a = 0"
  proof -
    have "(256 :: byte) = 0" by simp
    then show ?thesis by (simp only: mult_zero_left)
  qed
  ultimately show ?case using 1 by (simp add: group_bytes_def)
qed auto

lemma length_groups: "length (groups bs) = length bs div 2"
  by (induction bs rule: groups.induct) auto

lemma small_groups_groups: "small_groups (groups bs)"
proof (induction bs rule: groups.induct)
  case (1 a b r)
  have "256 * unat a + unat b < 65536" using unat_byte_le [of a] unat_byte_le [of b] by linarith
  with 1 show ?case by simp
qed auto

lemma String6_chars: "c \<in> set (String6 gs) \<Longrightarrow> is_hex c \<or> c = CHR '':''"
  by (auto simp: String6_def split: prod.splits if_splits dest: hex_groups_chars)

lemma String6_colon: "2 \<le> length gs \<Longrightarrow> CHR '':'' \<in> set (String6 gs)"
proof -
  assume "2 \<le> length gs"
  then obtain g h r where gs: "gs = g # h # r" by (cases gs; cases "tl gs") auto
  obtain st l where run: "zero_run 0 gs (0, 0) = (st, l)" by fastforce
  then show ?thesis by (cases "l = 0") (simp_all add: String6_def, simp add: gs)
qed

lemma not_HasPrefix_hex_groups: "gs \<noteq> [] \<Longrightarrow> \<not> HasPrefix (hex_groups gs @ s) ''::''"
  using hex_groups_hd [of gs] by (cases "hex_groups gs") (auto simp: HasPrefix_def)

lemma no_zone: "CHR ''%'' \<notin> set (hex_groups gs)"
  using hex_groups_chars not_hex_sep(3) by fastforce

lemma parseIPv6_loop_compressed:
  assumes "pre \<noteq> []" "small_groups pre" "small_groups post" "length pre + length post < 8"
  shows "parseIPv6_loop 8 (hex_groups pre @ ''::'' @ hex_groups post) [] None =
    Some ([], group_list_bytes pre @ group_list_bytes post, Some (2 * length pre))"
proof (cases "post = []")
  case True
  with assms show ?thesis
    using parseIPv6_loop_ellipsis [of pre 8 "[]" "[]"] by (simp add: Let_def)
next
  case False
  with assms show ?thesis
    using parseIPv6_loop_ellipsis [of pre 8 "hex_groups post" "[]"]
    by (simp add: Let_def parseIPv6_loop_groups)
qed

lemma parseIPv6_compressed:
  assumes "small_groups pre" "small_groups post" "length pre + l + length post = 8" "0 < l"
  shows "parseIPv6 (hex_groups pre @ ''::'' @ hex_groups post) =
    Some (group_list_bytes pre @ replicate (2 * l) 0 @ group_list_bytes post)"
proof (cases "pre = []")
  case True
  have "HasPrefix (''::'' @ hex_groups post) ''::''" by (simp add: HasPrefix_def)
  moreover have "16 - 2 * length post = 2 * l" using assms True by simp
  ultimately show ?thesis using True assms no_zone [of post]
    by (cases "post = []") (auto simp: parseIPv6_def IPv6zero_def parseIPv6_loop_groups)
next
  case False
  have "16 - 2 * (length pre + length post) = 2 * l" using assms by simp
  moreover have "2 * length pre + 2 * length post < 16" using assms by simp
  ultimately show ?thesis
    using False assms no_zone [of pre] no_zone [of post] not_HasPrefix_hex_groups [of pre "''::'' @ hex_groups post"]
      parseIPv6_loop_compressed [of pre post]
    by (simp add: parseIPv6_def)
qed

lemma parseIPv6_String6:
  assumes "length gs = 8" "small_groups gs"
  shows "parseIPv6 (String6 gs) = Some (group_list_bytes gs)"
proof -
  obtain st l where run: "zero_run 0 gs (0, 0) = (st, l)" by fastforce
  show ?thesis
  proof (cases "l = 0")
    case True
    with run have "String6 gs = hex_groups gs" by (simp add: String6_def)
    moreover have "gs \<noteq> []" using assms(1) by auto
    ultimately show ?thesis using assms not_HasPrefix_hex_groups [of gs "[]"] no_zone [of gs]
      by (simp add: parseIPv6_def parseIPv6_loop_groups)
  next
    case False
    note split = zero_run_split [OF run False]
    have "String6 gs = hex_groups (take st gs) @ ''::'' @ hex_groups (drop (st + l) gs)"
      using run False by (simp add: String6_def)
    moreover have "group_list_bytes gs =
      group_list_bytes (take st gs) @ replicate (2 * l) 0 @ group_list_bytes (drop (st + l) gs)"
      by (subst split(1)) (simp add: group_list_bytes_zero)
    moreover have "small_groups (take st gs)" "small_groups (drop (st + l) gs)"
      using assms(2) by (auto dest: in_set_takeD in_set_dropD)
    ultimately show ?thesis
      using parseIPv6_compressed [of "take st gs" "drop (st + l) gs" l] split(2,3) assms(1) by simp
  qed
qed

subsection \<open>Parsing inverts printing\<close>

lemma first_separator:
  assumes "x \<in> set s" "Q x" "\<And>c. c \<in> set s \<Longrightarrow> Q c \<Longrightarrow> c = x"
  shows "\<exists>r. dropWhile (\<lambda>c. \<not> Q c) s = x # r"
proof (cases "dropWhile (\<lambda>c. \<not> Q c) s")
  case Nil
  then show ?thesis using assms(1,2) by simp
next
  case (Cons y r)
  then have "Q y" "y \<in> set s"
    using hd_dropWhile [of "\<lambda>c. \<not> Q c" s] set_dropWhileD [of y "\<lambda>c. \<not> Q c" s] by auto
  then have "y = x" by (intro assms(3))
  with Cons show ?thesis by blast
qed

lemma String4_chars: "c \<in> set (String4 bs) \<Longrightarrow> is_digit c \<or> c = CHR ''.''"
proof (induction bs)
  case (Cons b bs)
  then show ?case by (cases "bs = []") (auto simp: String4_def Join_Cons dest: Itoa_digits)
qed (simp add: String4_def)

lemma not_digit_sep: "\<not> is_digit (CHR '':'')" "\<not> is_digit (CHR ''%'')"
  by (simp_all add: is_digit_def ord_def)

text \<open>The first separator of a printed address tells its kind.\<close>

abbreviation not_sep :: "char \<Rightarrow> bool" where
  "not_sep c \<equiv> c \<noteq> CHR ''.'' \<and> c \<noteq> CHR '':'' \<and> c \<noteq> CHR ''%''"

lemma first_sep_String4:
  assumes "length bs = 4"
  obtains r where "dropWhile not_sep (String4 bs) = CHR ''.'' # r"
proof -
  from assms obtain a b c d where bs: "bs = [a, b, c, d]" by (rule length_4E)
  have "\<exists>r. dropWhile (\<lambda>c. \<not> (c = CHR ''.'' \<or> c = CHR '':'' \<or> c = CHR ''%'')) (String4 bs)
    = CHR ''.'' # r"
  proof (rule first_separator)
    show "CHR ''.'' \<in> set (String4 bs)" by (simp add: bs String4_def)
  qed (use not_digit_sep in \<open>auto dest: String4_chars\<close>)
  with that show ?thesis by auto
qed

lemma first_sep_String6:
  assumes "2 \<le> length gs"
  obtains r where "dropWhile not_sep (String6 gs) = CHR '':'' # r"
proof -
  have "\<exists>r. dropWhile (\<lambda>c. \<not> (c = CHR ''.'' \<or> c = CHR '':'' \<or> c = CHR ''%'')) (String6 gs)
    = CHR '':'' # r"
  proof (rule first_separator)
    show "CHR '':'' \<in> set (String6 gs)" using String6_colon assms by simp
  qed (use not_hex_sep in \<open>auto dest: String6_chars\<close>)
  with that show ?thesis by auto
qed

lemma ParseIP_String4:
  assumes "length bs = 4"
  shows "ParseIP (String4 bs) = Some (v4InV6Prefix @ bs)"
  using parse_String4 [OF assms] by (rule_tac first_sep_String4 [OF assms]) (simp add: ParseIP_def)

lemma ParseIP_String6:
  assumes "length gs = 8" "small_groups gs"
  shows "ParseIP (String6 gs) = Some (group_list_bytes gs)"
proof -
  obtain r where "dropWhile not_sep (String6 gs) = CHR '':'' # r"
    using first_sep_String6 [of gs] assms(1) by auto
  then show ?thesis using parseIPv6_String6 [OF assms] by (simp add: ParseIP_def)
qed

abbreviation valid_IP :: "IP \<Rightarrow> bool" where
  "valid_IP ip \<equiv> length ip = 4 \<or> length ip = 16"

lemma take_eq_split: "take n xs = v \<Longrightarrow> v @ drop n xs = xs"
  using append_take_drop_id [of n xs] by (simp only:)

lemma To4_cases:
  assumes "To4 ip = Some p4"
  obtains (four) "length ip = 4" "p4 = ip"
    | (mapped) "length ip = 16" "take 12 ip = v4InV6Prefix" "p4 = drop 12 ip"
  using assms by (auto simp: To4_def split: if_splits)

lemma To4_To16:
  assumes "To4 ip = Some p4"
  shows "To16 ip = Some (v4InV6Prefix @ p4)" "length p4 = 4" "valid_IP ip" "ip \<noteq> []"
proof -
  from assms show "To16 ip = Some (v4InV6Prefix @ p4)"
    by (cases rule: To4_cases) (simp_all add: To16_def take_eq_split)
  from assms show "length p4 = 4" by (cases rule: To4_cases) simp_all
  from assms show "valid_IP ip" by (cases rule: To4_cases) simp_all
  from assms show "ip \<noteq> []" by (cases rule: To4_cases) auto
qed

lemma To4_None: "valid_IP ip \<Longrightarrow> To4 ip = None \<Longrightarrow> length ip = 16"
  by (auto simp: To4_def split: if_splits)

theorem ParseIP_String:
  assumes "valid_IP ip"
  shows "ParseIP (IP_String ip) = To16 ip"
proof (cases "To4 ip")
  case (Some p4)
  then have "IP_String ip = String4 p4" using To4_To16 [OF Some] by (auto simp: IP_String_def)
  then show ?thesis using To4_To16 [OF Some] by (simp add: ParseIP_String4)
next
  case None
  with assms have len: "length ip = 16" by (rule To4_None)
  then have "IP_String ip = String6 (groups ip)" using None by (auto simp: IP_String_def)
  moreover have "ParseIP (String6 (groups ip)) = Some (group_list_bytes (groups ip))"
    by (rule ParseIP_String6) (simp_all add: len length_groups small_groups_groups)
  ultimately show ?thesis using len by (simp add: group_list_bytes_groups To16_def)
qed

text \<open>Printing and parsing 16-byte addresses is a codec.\<close>

interpretation ip_text: codec IP_String ParseIP "\<lambda>ip. length ip = 16"
  by unfold_locales (simp add: ParseIP_String To16_def)

end
