(* ===== verification/IPPool.thy ===== *)
theory IPPool
  imports GoNetText "HOL-Library.AList" "HOL-Library.Multiset"
begin

text \<open>
  The fake-IP pool of \<^verbatim>\<open>internal/dnsengine/ippool.go\<close>: its state (64 shards of real-to-fake maps with
  expiry times, the global fake-to-real and version maps, the address ranges, the hybrid logical
  clock) and every operation on it. Locks are not part of the state: each definition below is one
  critical section of the code or a sequence of them; the interleavings of critical sections are
  the step relation of theory \<^verbatim>\<open>PoolSteps\<close>. The wall clock is an argument of the operations
  that read it (\<^typ>\<open>int\<close>, nanoseconds since the Unix epoch, for \<^verbatim>\<open>time.Time\<close>; \<^typ>\<open>u64\<close> for
  \<^verbatim>\<open>uint64(time.Now().UnixNano())\<close>). The process-wide counters of \<^verbatim>\<open>metrics.go\<close> that the pool
  increments are kept in the field \<open>ctr\<close>.
\<close>

subsection \<open>Data\<close>

record MappingInfo =
  mi_IP :: IP
  mi_Version :: u64

text \<open>\<^verbatim>\<open>Mapping\<close> of \<^verbatim>\<open>sync.go\<close>; the addresses may be nil in a message.\<close>

record Mapping =
  FakeIP :: "IP option"
  RealIP :: "IP option"
  Version :: u64

record IPKey =
  isIPv6 :: bool
  v4 :: u32
  v6 :: "byte list"

record cacheShard =
  realToFake :: "IPKey \<rightharpoonup> IPKey"
  expiries :: "IPKey \<rightharpoonup> int"

record Metrics =
  MetricsAllocations :: u64
  MetricsCollisions :: u64
  MetricsSyncs :: u64
  MetricsDNSQueries :: u64
  MetricsDNSErrors :: u64
  MetricsExhaustions :: u64

record IPPool =
  shards :: "cacheShard list"
  globalFakeToReal :: "IPKey \<rightharpoonup> IPKey"
  globalVersions :: "IPKey \<rightharpoonup> u64"
  poolStart :: u32
  poolSize :: u32
  cidrMask :: int
  poolStart6 :: "byte list"
  poolSize6 :: u32
  cidrMask6 :: int
  stopped :: bool
  hlc :: u64
  ctr :: Metrics

record IPPoolConfig =
  PoolSizeV4 :: u32
  PoolSizeV6 :: u32

definition DefaultPoolSizeV4 :: u32 where "DefaultPoolSizeV4 = 131072"
definition DefaultPoolSizeV6 :: u32 where "DefaultPoolSizeV6 = 1048576"

definition minute :: int where "minute = 60 * 10 ^ 9"

definition MappingTTL :: int where "MappingTTL = 120 * minute"

text \<open>The zero \<^verbatim>\<open>time.Time\<close> (1 January of year 1), which a missing map entry reads as.\<close>

definition zeroTime :: int where "zeroTime = - 62135596800 * 10 ^ 9"

subsection \<open>Keys and hashing\<close>

definition ToIPKey :: "IP \<Rightarrow> IPKey" where
  "ToIPKey ip = (case To4 ip of
       Some ip4 \<Rightarrow> \<lparr>isIPv6 = False, v4 = BigEndian_Uint32 ip4, v6 = replicate 16 0\<rparr>
     | None \<Rightarrow> \<lparr>isIPv6 = True, v4 = 0,
         v6 = (case To16 ip of Some b \<Rightarrow> b | None \<Rightarrow> replicate 16 0)\<rparr>)"

definition u32_IPv4 :: "u32 \<Rightarrow> IP" where
  "u32_IPv4 v = IPv4 (ucast (drop_bit 24 v)) (ucast (drop_bit 16 v)) (ucast (drop_bit 8 v)) (ucast v)"

definition ToIP :: "IPKey \<Rightarrow> IP" where
  "ToIP k = (if \<not> isIPv6 k then u32_IPv4 (v4 k) else v6 k)"

definition normalizeIP :: "IP \<Rightarrow> IP option" where
  "normalizeIP ip = (case To4 ip of Some ip4 \<Rightarrow> Some ip4 | None \<Rightarrow> To16 ip)"

fun fnv1a_rounds :: "u32 \<Rightarrow> byte list \<Rightarrow> u32" where
  "fnv1a_rounds h [] = h"
| "fnv1a_rounds h (b # bs) = fnv1a_rounds ((h XOR ucast b) * 16777619) bs"

definition fnv1aBytes :: "byte list \<Rightarrow> u32" where
  "fnv1aBytes bs =
     (let h0 = fnv1a_rounds 2166136261 bs;
          h1 = (h0 XOR drop_bit 16 h0) * 0x85ebca6b;
          h2 = (h1 XOR drop_bit 13 h1) * 0xc2b2ae35
      in h2 XOR drop_bit 16 h2)"

definition getShardIndex :: "IP \<Rightarrow> nat" where
  "getShardIndex ip = unat (fnv1aBytes (slice (normalizeIP ip)) mod 64)"

definition UintToIP :: "u32 \<Rightarrow> string" where
  "UintToIP ip = String4 (BigEndian_PutUint32 ip)"

subsection \<open>Construction\<close>

text \<open>\<^verbatim>\<open>int(math.Ceil(math.Log2(float64(n))))\<close>; exact for every \<open>uint32\<close>, because \<^verbatim>\<open>Log2\<close> is exact on
  powers of two and the distance of the others to an integer exceeds the rounding error.\<close>

fun ceil_log2 :: "nat \<Rightarrow> nat" where
  "ceil_log2 n = (if n \<le> 1 then 0 else Suc (ceil_log2 ((n + 1) div 2)))"

declare ceil_log2.simps [simp del]

definition zeroMetrics :: Metrics where
  "zeroMetrics = \<lparr>MetricsAllocations = 0, MetricsCollisions = 0, MetricsSyncs = 0,
     MetricsDNSQueries = 0, MetricsDNSErrors = 0, MetricsExhaustions = 0\<rparr>"

definition emptyShard :: cacheShard where
  "emptyShard = \<lparr>realToFake = Map.empty, expiries = Map.empty\<rparr>"

definition poolStart_of :: "string \<Rightarrow> int \<Rightarrow> u32" where
  "poolStart_of baseSubnetV4 mask4 =
     (let base = (if baseSubnetV4 = [] then ''198.18'' else baseSubnetV4);
          ipStr = base @ concat (replicate (4 - length (Split base (CHR ''.''))) ''.0'');
          st = (case ParseIP ipStr of None \<Rightarrow> 0
                | Some ip \<Rightarrow> (case To4 ip of None \<Rightarrow> 0
                  | Some ip4 \<Rightarrow> BigEndian_Uint32 (slice (IP_Mask ip4 (slice (CIDRMask mask4 32))))))
      in if st = 0 then push_bit 24 198 OR push_bit 16 18 else st)"

definition poolStart6_of :: "string \<Rightarrow> int \<Rightarrow> byte list" where
  "poolStart6_of baseSubnetV6 mask6 =
     (let base = (if baseSubnetV6 = [] then ''fd00:18::'' else baseSubnetV6);
          st = (case Option.bind (ParseIP base) To16 of
                  Some b \<Rightarrow> b
                | None \<Rightarrow> (replicate 16 0)[0 := 0xfd, 1 := 0x00, 3 := 0x18])
      in slice (IP_Mask st (slice (CIDRMask mask6 128))))"

definition NewIPPoolWithConfig :: "string \<Rightarrow> string \<Rightarrow> IPPoolConfig \<Rightarrow> IPPool" where
  "NewIPPoolWithConfig baseSubnetV4 baseSubnetV6 cfg =
     (let size4 = (if PoolSizeV4 cfg = 0 then DefaultPoolSizeV4 else PoolSizeV4 cfg);
          mask4 = 32 - int (ceil_log2 (unat size4));
          size6 = (if PoolSizeV6 cfg = 0 then DefaultPoolSizeV6 else PoolSizeV6 cfg);
          mask6 = 128 - int (ceil_log2 (unat size6))
      in \<lparr>shards = replicate 64 emptyShard,
          globalFakeToReal = Map.empty, globalVersions = Map.empty,
          poolStart = poolStart_of baseSubnetV4 mask4, poolSize = size4, cidrMask = mask4,
          poolStart6 = poolStart6_of baseSubnetV6 mask6, poolSize6 = size6, cidrMask6 = mask6,
          stopped = False, hlc = 0, ctr = zeroMetrics\<rparr>)"

definition NewIPPool :: "string \<Rightarrow> string \<Rightarrow> IPPool" where
  "NewIPPool baseSubnetV4 baseSubnetV6 = NewIPPoolWithConfig baseSubnetV4 baseSubnetV6
     \<lparr>PoolSizeV4 = DefaultPoolSizeV4, PoolSizeV6 = DefaultPoolSizeV6\<rparr>"

text \<open>\<^verbatim>\<open>Close\<close> closes the stop channel; closing it twice panics (\<^const>\<open>None\<close>).\<close>

definition Close :: "IPPool \<Rightarrow> IPPool option" where
  "Close p = (if stopped p then None else Some (p\<lparr>stopped := True\<rparr>))"

definition GetPoolNet :: "IPPool \<Rightarrow> string" where
  "GetPoolNet p = UintToIP (poolStart p) @ ''/'' @ Itoa (nat (cidrMask p))"

definition GetPoolNet6 :: "IPPool \<Rightarrow> string" where
  "GetPoolNet6 p = IP_String (poolStart6 p) @ ''/'' @ Itoa (nat (cidrMask6 p))"

subsection \<open>Hybrid logical clock\<close>

definition GetNextVersion :: "u64 \<Rightarrow> IPPool \<Rightarrow> u64 \<times> IPPool" where
  "GetNextVersion now p =
     (let h = (if hlc p < now then now else hlc p + 1) in (h, p\<lparr>hlc := h\<rparr>))"

definition ObserveVersion :: "u64 \<Rightarrow> u64 \<Rightarrow> IPPool \<Rightarrow> IPPool" where
  "ObserveVersion now v p =
     (let h = (if hlc p < now then now else hlc p) in p\<lparr>hlc := if h < v then v else h\<rparr>)"

subsection \<open>Primitive updates of the maps\<close>

text \<open>The groups of \<^verbatim>\<open>delete\<close> and assignment statements the operations are made of.\<close>

definition delGlobal :: "IPKey \<Rightarrow> IPPool \<Rightarrow> IPPool" where
  "delGlobal f p = p\<lparr>globalFakeToReal := (globalFakeToReal p)(f := None),
     globalVersions := (globalVersions p)(f := None)\<rparr>"

definition setGlobal :: "IPKey \<Rightarrow> IPKey \<Rightarrow> u64 \<Rightarrow> IPPool \<Rightarrow> IPPool" where
  "setGlobal f r ver p = p\<lparr>globalFakeToReal := (globalFakeToReal p)(f \<mapsto> r),
     globalVersions := (globalVersions p)(f \<mapsto> ver)\<rparr>"

definition updShard :: "nat \<Rightarrow> (cacheShard \<Rightarrow> cacheShard) \<Rightarrow> IPPool \<Rightarrow> IPPool" where
  "updShard i h p = p\<lparr>shards := (shards p)[i := h (shards p ! i)]\<rparr>"

definition delReal :: "nat \<Rightarrow> IPKey \<Rightarrow> IPPool \<Rightarrow> IPPool" where
  "delReal i r = updShard i (\<lambda>s. s\<lparr>realToFake := (realToFake s)(r := None),
     expiries := (expiries s)(r := None)\<rparr>)"

definition setReal :: "nat \<Rightarrow> IPKey \<Rightarrow> IPKey \<Rightarrow> int \<Rightarrow> IPPool \<Rightarrow> IPPool" where
  "setReal i r f e = updShard i (\<lambda>s. s\<lparr>realToFake := (realToFake s)(r \<mapsto> f),
     expiries := (expiries s)(r \<mapsto> e)\<rparr>)"

definition setExpiry :: "nat \<Rightarrow> IPKey \<Rightarrow> int \<Rightarrow> IPPool \<Rightarrow> IPPool" where
  "setExpiry i r e = updShard i (\<lambda>s. s\<lparr>expiries := (expiries s)(r \<mapsto> e)\<rparr>)"

definition incCollisions :: "IPPool \<Rightarrow> IPPool" where
  "incCollisions p = p\<lparr>ctr := (ctr p)\<lparr>MetricsCollisions := MetricsCollisions (ctr p) + 1\<rparr>\<rparr>"

definition incExhaustions :: "IPPool \<Rightarrow> IPPool" where
  "incExhaustions p = p\<lparr>ctr := (ctr p)\<lparr>MetricsExhaustions := MetricsExhaustions (ctr p) + 1\<rparr>\<rparr>"

definition addAllocations :: "nat \<Rightarrow> IPPool \<Rightarrow> IPPool" where
  "addAllocations n p =
     p\<lparr>ctr := (ctr p)\<lparr>MetricsAllocations := MetricsAllocations (ctr p) + of_nat n\<rparr>\<rparr>"

subsection \<open>Mappings received from peers and from the kernel\<close>

text \<open>The two version guards of \<^verbatim>\<open>AddMapping\<close>: an update loses against an existing entry of the same fake
  (or real) address with a larger version, and on equal versions unless its real (fake) address
  is the larger one.\<close>

definition staleFor :: "u64 \<Rightarrow> IPKey \<Rightarrow> u64 option \<Rightarrow> IPKey \<Rightarrow> bool" where
  "staleFor ver new existingVersion existing =
     (case existingVersion of None \<Rightarrow> False
      | Some ev \<Rightarrow> ver < ev \<or>
          ver = ev \<and> bytes_Compare (slice (To16 (ToIP new))) (slice (To16 (ToIP existing))) \<le> 0)"

definition AddMapping :: "IP \<Rightarrow> IP \<Rightarrow> u64 \<Rightarrow> int \<Rightarrow> IPPool \<Rightarrow> bool \<times> IPPool" where
  "AddMapping realIP fakeIP ver expiresAt p =
     (let realKey = ToIPKey realIP; fakeKey = ToIPKey fakeIP;
          existingReal = globalFakeToReal p fakeKey;
          p1 = (if existingReal = None then p else incCollisions p)
      in if (case existingReal of None \<Rightarrow> False
             | Some er \<Rightarrow> staleFor ver realKey (globalVersions p fakeKey) er)
         then (False, p1)
         else let oldRealToClear = (case existingReal of None \<Rightarrow> None
                    | Some er \<Rightarrow> if er \<noteq> realKey then Some er else None);
                  i = getShardIndex realIP;
                  existingFake = realToFake (shards p1 ! i) realKey;
                  p2 = (if existingFake = None then p1 else incCollisions p1)
              in if (case existingFake of None \<Rightarrow> False
                     | Some ef \<Rightarrow> ef \<noteq> fakeKey \<and> staleFor ver fakeKey (globalVersions p2 ef) ef)
                 then (False, p2)
                 else let p3 = (case existingFake of None \<Rightarrow> p2
                            | Some ef \<Rightarrow> if ef \<noteq> fakeKey then delGlobal ef p2 else p2);
                          p4 = (case oldRealToClear of None \<Rightarrow> p3
                            | Some er \<Rightarrow> delReal (getShardIndex (ToIP er)) er p3);
                          p5 = setReal i realKey fakeKey expiresAt p4
                      in (True, setGlobal fakeKey realKey ver p5))"

definition RemoveMapping :: "IP \<Rightarrow> IP \<Rightarrow> IPPool \<Rightarrow> IPPool" where
  "RemoveMapping realIP fakeIP p =
     (let realKey = ToIPKey realIP; fakeKey = ToIPKey fakeIP; i = getShardIndex realIP
      in if realToFake (shards p ! i) realKey = Some fakeKey
         then delGlobal fakeKey (delReal i realKey p) else p)"

definition IsFakeIPOccupied :: "IP \<Rightarrow> IPPool \<Rightarrow> bool" where
  "IsFakeIPOccupied fakeIP p \<longleftrightarrow> globalFakeToReal p (ToIPKey fakeIP) \<noteq> None"

definition GetVersion :: "IP \<Rightarrow> IPPool \<Rightarrow> u64" where
  "GetVersion fakeIP p =
     (case globalVersions p (ToIPKey fakeIP) of Some ver \<Rightarrow> ver | None \<Rightarrow> 0)"

text \<open>\<^verbatim>\<open>TryReserve\<close> reads the clock twice (\<open>now1\<close>, \<open>now2\<close>).\<close>

definition TryReserve ::
  "IP \<Rightarrow> IP \<Rightarrow> u64 \<Rightarrow> int \<Rightarrow> int \<Rightarrow> int \<Rightarrow> IPPool \<Rightarrow> (bool \<times> IP option) \<times> IPPool" where
  "TryReserve realIP fakeIP ver expiresAt now1 now2 p =
     (let realKey = ToIPKey realIP; fakeKey = ToIPKey fakeIP; i = getShardIndex realIP;
          reserve = (\<lambda>q. if globalFakeToReal q fakeKey \<noteq> None then ((False, None), q)
            else ((True, Some fakeIP), setGlobal fakeKey realKey ver (setReal i realKey fakeKey expiresAt q)))
      in case realToFake (shards p ! i) realKey of
           None \<Rightarrow> reserve p
         | Some ef \<Rightarrow>
             (case expiries (shards p ! i) realKey of
                None \<Rightarrow> ((True, Some (ToIP ef)), p)
              | Some expiry \<Rightarrow>
                  if now1 < expiry
                  then ((True, Some (ToIP ef)),
                    if expiry < now2 + 5 * minute then setExpiry i realKey expiresAt p else p)
                  else reserve (delReal i realKey (delGlobal ef p))))"

subsection \<open>Expiry\<close>

text \<open>\<^verbatim>\<open>PruneExpired\<close> visits the shards in order; in each it first collects the expired pairs under the
  read lock, then deletes those that are still expired under the write locks. \<open>visit\<close> lists the keys
  of the expiry map in the order the runtime visits them.\<close>

definition prune_collect :: "int \<Rightarrow> IPKey list \<Rightarrow> cacheShard \<Rightarrow> (IPKey \<times> IPKey) list" where
  "prune_collect now visit s =
     concat (map (\<lambda>r. case (expiries s r, realToFake s r) of
         (Some e, Some f) \<Rightarrow> if e < now then [(r, f)] else []
       | _ \<Rightarrow> []) visit)"

fun prune_delete :: "int \<Rightarrow> nat \<Rightarrow> (IPKey \<times> IPKey) list \<Rightarrow> IPPool \<Rightarrow> IPPool" where
  "prune_delete now i [] p = p"
| "prune_delete now i ((r, f) # ps) p =
     prune_delete now i ps
       (case expiries (shards p ! i) r of
          None \<Rightarrow> p
        | Some e \<Rightarrow> if e < now \<and> realToFake (shards p ! i) r = Some f
            then delGlobal f (delReal i r p) else p)"

definition prune_shard :: "int \<Rightarrow> (nat \<Rightarrow> IPKey list) \<Rightarrow> nat \<Rightarrow> IPPool \<Rightarrow> IPPool" where
  "prune_shard now visit i p = prune_delete now i (prune_collect now (visit i) (shards p ! i)) p"

definition PruneExpired :: "int \<Rightarrow> (nat \<Rightarrow> IPKey list) \<Rightarrow> IPPool \<Rightarrow> IPPool" where
  "PruneExpired now visit p = fold (prune_shard now visit) [0..<64] p"

subsection \<open>Snapshots\<close>

text \<open>\<open>ks\<close> lists the keys of the fake-to-real map in the order the runtime visits them.\<close>

definition GetAllMappings :: "IPKey list \<Rightarrow> IPPool \<Rightarrow> Mapping list" where
  "GetAllMappings ks p =
     concat (map (\<lambda>f. case globalFakeToReal p f of None \<Rightarrow> []
       | Some r \<Rightarrow> [\<lparr>FakeIP = Some (ToIP f), RealIP = Some (ToIP r),
           Version = (case globalVersions p f of Some ver \<Rightarrow> ver | None \<Rightarrow> 0)\<rparr>]) ks)"

definition GetActiveCount :: "IPPool \<Rightarrow> nat" where
  "GetActiveCount p = card (dom (globalFakeToReal p))"

subsection \<open>Allocation\<close>

definition ComputeLevel1Hash :: "IP \<Rightarrow> bool \<Rightarrow> IPPool \<Rightarrow> IP" where
  "ComputeLevel1Hash realIP v6flag p =
     (if \<not> v6flag then
        let offset = fnv1aBytes (slice (To4 realIP)) mod poolSize p;
            ipVal = poolStart p + offset
        in u32_IPv4 (if ipVal mod 256 = 0 then ipVal + 1
             else if ipVal mod 256 = 255 then ipVal - 1 else ipVal)
      else
        let offset = fnv1aBytes (slice (To16 realIP)) mod poolSize6 p;
            val = BigEndian_Uint32 (drop 12 (poolStart6 p))
        in take 12 (poolStart6 p) @ BigEndian_PutUint32 (val + offset))"

fun probe4 :: "IPPool \<Rightarrow> u32 \<Rightarrow> nat \<Rightarrow> u32 \<Rightarrow> IP option" where
  "probe4 p naturalOffset 0 attempt = None"
| "probe4 p naturalOffset (Suc n) attempt =
     (let offset = (naturalOffset + attempt) mod poolSize p;
          candidateIPVal = poolStart p + offset
      in if candidateIPVal mod 256 = 0 \<or> candidateIPVal mod 256 = 255
         then probe4 p naturalOffset n (attempt + 1)
         else if globalFakeToReal p (ToIPKey (u32_IPv4 candidateIPVal)) = None
         then Some (u32_IPv4 candidateIPVal)
         else probe4 p naturalOffset n (attempt + 1))"

fun probe6 :: "IPPool \<Rightarrow> u32 \<Rightarrow> nat \<Rightarrow> u32 \<Rightarrow> IP option" where
  "probe6 p naturalOffset 0 attempt = None"
| "probe6 p naturalOffset (Suc n) attempt =
     (let offset = (naturalOffset + attempt) mod poolSize6 p;
          startVal = BigEndian_Uint32 (drop 12 (poolStart6 p));
          candidateIP = take 12 (poolStart6 p) @ BigEndian_PutUint32 (startVal + offset)
      in if globalFakeToReal p (ToIPKey candidateIP) = None then Some candidateIP
         else probe6 p naturalOffset n (attempt + 1))"

definition maxAttempts :: "u32 \<Rightarrow> nat" where
  "maxAttempts sz = unat (if 1024 < sz then 1024 else sz)"

text \<open>The choice of the fake address: the natural slot if it is free, else linear probing.\<close>

definition chooseFake :: "IP \<Rightarrow> bool \<Rightarrow> IPPool \<Rightarrow> IP option" where
  "chooseFake realIP v6flag p =
     (let naturalFake = ComputeLevel1Hash realIP v6flag p
      in if globalFakeToReal p (ToIPKey naturalFake) = None then Some naturalFake
         else if \<not> v6flag then
           probe4 p (BigEndian_Uint32 (slice (To4 naturalFake)) - poolStart p)
             (maxAttempts (poolSize p)) 0
         else
           probe6 p (BigEndian_Uint32 (drop 12 naturalFake)
               - BigEndian_Uint32 (drop 12 (poolStart6 p)))
             (maxAttempts (poolSize6 p)) 0)"

text \<open>One iteration of \<^verbatim>\<open>GetFakeIPsForReals\<close> has two critical sections: the lookup under the read lock
  of the shard, and, when it does not answer, the section under both write locks.\<close>

definition lookup_fast :: "int \<Rightarrow> IP \<Rightarrow> IPPool \<Rightarrow> IP option" where
  "lookup_fast now realIP p =
     (let s = shards p ! getShardIndex realIP; realKey = ToIPKey realIP;
          expiry = (case expiries s realKey of Some e \<Rightarrow> e | None \<Rightarrow> zeroTime)
      in case realToFake s realKey of
           Some f \<Rightarrow> if now + 5 * minute < expiry then Some (ToIP f) else None
         | None \<Rightarrow> None)"

datatype alloc_result = Reused IP | Fresh IP u64 | Exhausted

definition alloc_fresh :: "bool \<Rightarrow> int \<Rightarrow> u64 \<Rightarrow> IP \<Rightarrow> IPPool \<Rightarrow> alloc_result \<times> IPPool" where
  "alloc_fresh v6flag now clk realIP p =
     (case chooseFake realIP v6flag p of
        None \<Rightarrow> (Exhausted, p)
      | Some finalFake \<Rightarrow>
          let realKey = ToIPKey realIP; i = getShardIndex realIP; allocatedKey = ToIPKey finalFake;
              (ver, p1) = GetNextVersion clk p
          in (Fresh finalFake ver,
              setGlobal allocatedKey realKey ver (setReal i realKey allocatedKey (now + MappingTTL) p1)))"

definition alloc_locked :: "bool \<Rightarrow> int \<Rightarrow> u64 \<Rightarrow> IP \<Rightarrow> IPPool \<Rightarrow> alloc_result \<times> IPPool" where
  "alloc_locked v6flag now clk realIP p =
     (let realKey = ToIPKey realIP; i = getShardIndex realIP
      in case realToFake (shards p ! i) realKey of
           None \<Rightarrow> alloc_fresh v6flag now clk realIP p
         | Some ef \<Rightarrow>
             (case expiries (shards p ! i) realKey of
                None \<Rightarrow> (Reused (ToIP ef), p)
              | Some expiry \<Rightarrow>
                  if now < expiry
                  then (Reused (ToIP ef),
                    if expiry < now + 5 * minute then setExpiry i realKey (now + MappingTTL) p else p)
                  else alloc_fresh v6flag now clk realIP (delReal i realKey (delGlobal ef p))))"

type_synonym result_map = "(string \<times> IP) list"
type_synonym new_map = "(string \<times> MappingInfo) list"

text \<open>The loop over the sorted addresses. The maps \<^verbatim>\<open>result\<close> and \<^verbatim>\<open>newMappings\<close> are association lists
  with one entry per key; \<open>clk i\<close> is the clock read by \<^verbatim>\<open>GetNextVersion\<close> in iteration \<open>i\<close>.\<close>

fun allocate_all ::
  "bool \<Rightarrow> int \<Rightarrow> (nat \<Rightarrow> u64) \<Rightarrow> nat \<Rightarrow> IP list \<Rightarrow> result_map \<Rightarrow> new_map \<Rightarrow> IPPool
     \<Rightarrow> (bool \<times> result_map \<times> new_map) \<times> IPPool" where
  "allocate_all v6flag now clk i [] res new p = ((True, res, new), p)"
| "allocate_all v6flag now clk i (realIP # rs) res new p =
     (case lookup_fast now realIP p of
        Some f \<Rightarrow> allocate_all v6flag now clk (Suc i) rs (AList.update (IP_String realIP) f res) new p
      | None \<Rightarrow>
          (case alloc_locked v6flag now (clk i) realIP p of
             (Reused f, p') \<Rightarrow>
               allocate_all v6flag now clk (Suc i) rs (AList.update (IP_String realIP) f res) new p'
           | (Fresh f ver, p') \<Rightarrow>
               allocate_all v6flag now clk (Suc i) rs (AList.update (IP_String realIP) f res)
                 (AList.update (IP_String realIP) \<lparr>mi_IP = f, mi_Version = ver\<rparr> new) p'
           | (Exhausted, p') \<Rightarrow> ((False, res, new), incExhaustions p')))"

definition rollback :: "new_map \<Rightarrow> IPPool \<Rightarrow> IPPool" where
  "rollback new p =
     fold (\<lambda>(ipStr, info). RemoveMapping (slice (ParseIP ipStr)) (mi_IP info)) new p"

definition sortReals :: "IP list \<Rightarrow> IP list" where
  "sortReals reals = sort_key (\<lambda>ip. slice (To16 ip)) reals"

text \<open>\<open>perm\<close> is the order in which the runtime visits the entries of \<^verbatim>\<open>newMappings\<close> in the rollback.
  The result is \<^const>\<open>None\<close> for the returned \<^verbatim>\<open>nil, nil, false\<close>.\<close>

definition GetFakeIPsForReals ::
  "(new_map \<Rightarrow> new_map) \<Rightarrow> int \<Rightarrow> (nat \<Rightarrow> u64) \<Rightarrow> IP list \<Rightarrow> bool \<Rightarrow> IPPool
     \<Rightarrow> (result_map \<times> new_map) option \<times> IPPool" where
  "GetFakeIPsForReals perm now clk reals v6flag p =
     (if reals = [] then (None, p)
      else case allocate_all v6flag now clk 0 (sortReals reals) [] [] p of
             ((True, res, new), p') \<Rightarrow> (Some (res, new), addAllocations (length res) p')
           | ((False, res, new), p') \<Rightarrow> (None, rollback (perm new) p'))"

end
