(* ===== verification/PoolInv.thy ===== *)
theory PoolInv
  imports IPPool
begin

text \<open>
  The invariant of the fake-IP pool and its preservation. Address keys are canonical, the
  real-to-fake maps of the shards and the global fake-to-real map are inverse to each other, and
  versions and expiry times exist for exactly the mapped addresses. Every operation of the pool is
  reduced to three moves on this structure: evicting a pair, binding a free real address to a free
  fake address, and touching an expiry time.
\<close>

subsection \<open>Definitions\<close>

definition wf_key :: "IPKey \<Rightarrow> bool" where
  "wf_key k \<longleftrightarrow> (if isIPv6 k
     then v4 k = 0 \<and> length (v6 k) = 16 \<and> take 12 (v6 k) \<noteq> v4InV6Prefix
     else v6 k = replicate 16 0)"

definition keyShard :: "IPKey \<Rightarrow> nat" where
  "keyShard k = getShardIndex (ToIP k)"

text \<open>The fake address and the expiry time of a real address, over all shards.\<close>

definition fakeOf :: "IPPool \<Rightarrow> IPKey \<rightharpoonup> IPKey" where
  "fakeOf p r = realToFake (shards p ! keyShard r) r"

definition expiryOf :: "IPPool \<Rightarrow> IPKey \<rightharpoonup> int" where
  "expiryOf p r = expiries (shards p ! keyShard r) r"

definition pool_inv :: "IPPool \<Rightarrow> bool" where
  "pool_inv p \<longleftrightarrow>
     length (shards p) = 64 \<and>
     (\<forall>i < 64. \<forall>r. realToFake (shards p ! i) r \<noteq> None \<longrightarrow> i = keyShard r) \<and>
     (\<forall>i < 64. dom (expiries (shards p ! i)) = dom (realToFake (shards p ! i))) \<and>
     (\<forall>r f. fakeOf p r = Some f \<longleftrightarrow> globalFakeToReal p f = Some r) \<and>
     (\<forall>r f. globalFakeToReal p f = Some r \<longrightarrow> wf_key r \<and> wf_key f) \<and>
     dom (globalVersions p) = dom (globalFakeToReal p) \<and>
     finite (dom (globalFakeToReal p))"

definition pool_config_ok :: "IPPool \<Rightarrow> bool" where
  "pool_config_ok p \<longleftrightarrow> poolSize p \<noteq> 0 \<and> poolSize6 p \<noteq> 0 \<and> length (poolStart6 p) = 16"

text \<open>The three moves.\<close>

definition evict :: "IPKey \<Rightarrow> IPKey \<Rightarrow> IPPool \<Rightarrow> IPPool" where
  "evict r f p = delGlobal f (delReal (keyShard r) r p)"

definition bind_pair :: "IPKey \<Rightarrow> IPKey \<Rightarrow> u64 \<Rightarrow> int \<Rightarrow> IPPool \<Rightarrow> IPPool" where
  "bind_pair r f ver e p = setGlobal f r ver (setReal (keyShard r) r f e p)"

definition touch :: "IPKey \<Rightarrow> int \<Rightarrow> IPPool \<Rightarrow> IPPool" where
  "touch r e p = setExpiry (keyShard r) r e p"

subsection \<open>Keys\<close>

lemma zeros_not_prefix [simp]: "replicate 12 0 \<noteq> v4InV6Prefix"
proof
  assume "replicate 12 0 = v4InV6Prefix"
  then have "last (replicate 12 (0 :: byte)) = last v4InV6Prefix" by (rule arg_cong)
  then show False by (simp add: v4InV6Prefix_def)
qed

lemma length_v4InV6Prefix [simp]: "length v4InV6Prefix = 12"
  by (simp add: v4InV6Prefix_def)

lemma u32_IPv4_eq [ip_simps]: "u32_IPv4 v = v4InV6Prefix @ BigEndian_PutUint32 v"
  by (simp add: u32_IPv4_def IPv4_def BigEndian_PutUint32_def)

lemma To4_mapped [ip_simps, simp]: "length b = 4 \<Longrightarrow> To4 (v4InV6Prefix @ b) = Some b"
  by (simp add: To4_def)

lemma wf_ToIPKey [simp, intro]: "wf_key (ToIPKey ip)"
  by (auto simp: ToIPKey_def wf_key_def To4_def To16_def split: option.splits if_splits)

lemma length_ToIP [simp]: "wf_key k \<Longrightarrow> length (ToIP k) = 16"
  by (auto simp: ToIP_def wf_key_def u32_IPv4_eq)

lemma ToIPKey_ToIP [simp]: "wf_key k \<Longrightarrow> ToIPKey (ToIP k) = k"
  by (cases k) (auto simp: ToIPKey_def ToIP_def wf_key_def u32_IPv4_eq To4_def To16_def)

lemma ToIP_ToIPKey: "valid_IP ip \<Longrightarrow> Some (ToIP (ToIPKey ip)) = To16 ip"
proof (cases "To4 ip")
  case (Some p4)
  with To4_To16 [OF Some] show ?thesis
    by (simp add: ToIPKey_def ToIP_def u32_IPv4_eq BigEndian_PutUint32_Uint32_4)
next
  case None
  assume "valid_IP ip"
  then have "length ip = 16" using None by (rule To4_None)
  with None show ?thesis by (simp add: ToIPKey_def ToIP_def To16_def)
qed

lemma To16_valid: "valid_IP ip \<longleftrightarrow> To16 ip \<noteq> None"
  by (auto simp: To16_def)

lemma To16_length: "To16 a = Some b \<Longrightarrow> length b = 16"
  by (auto simp: To16_def split: if_splits)

lemma normalizeIP_To16: "To16 ip = Some b \<Longrightarrow> normalizeIP b = normalizeIP ip"
proof (cases "To4 ip")
  case (Some p4)
  assume "To16 ip = Some b"
  with To4_To16 [OF Some] show ?thesis by (simp add: normalizeIP_def Some)
next
  case None
  assume b: "To16 ip = Some b"
  then have "length ip = 16" using None To4_None To16_valid by auto
  with b have "b = ip" by (simp add: To16_def)
  then show ?thesis by simp
qed

lemma keyShard_ToIPKey [simp]: "valid_IP ip \<Longrightarrow> keyShard (ToIPKey ip) = getShardIndex ip"
  using ToIP_ToIPKey [of ip] normalizeIP_To16 [of ip] by (simp add: keyShard_def getShardIndex_def)

lemma getShardIndex_less [simp]: "getShardIndex ip < 64"
proof -
  have "unat (fnv1aBytes (slice (normalizeIP ip)) mod 64) < unat (64 :: u32)"
    by (simp add: unat_mod)
  then show ?thesis by (simp add: getShardIndex_def)
qed

lemma keyShard_less [simp]: "keyShard k < 64"
  by (simp add: keyShard_def)

lemma ToIPKey_eq_iff: "valid_IP a \<Longrightarrow> valid_IP b \<Longrightarrow> ToIPKey a = ToIPKey b \<longleftrightarrow> To16 a = To16 b"
  using ToIP_ToIPKey by (metis ToIPKey_ToIP option.inject wf_ToIPKey)

interpretation ip_key: codec ToIP "\<lambda>b. Some (ToIPKey b)" wf_key
  by unfold_locales simp

subsection \<open>Field equations of the primitive updates\<close>

lemmas prim_defs = delGlobal_def setGlobal_def updShard_def delReal_def setReal_def setExpiry_def
  incCollisions_def incExhaustions_def addAllocations_def evict_def bind_pair_def touch_def

lemma globalFakeToReal_prims [pool_simps]:
  "globalFakeToReal (delGlobal f p) = (globalFakeToReal p)(f := None)"
  "globalFakeToReal (setGlobal f r ver p) = (globalFakeToReal p)(f \<mapsto> r)"
  "globalFakeToReal (delReal i r p) = globalFakeToReal p"
  "globalFakeToReal (setReal i r f e p) = globalFakeToReal p"
  "globalFakeToReal (setExpiry i r e p) = globalFakeToReal p"
  "globalFakeToReal (incCollisions p) = globalFakeToReal p"
  "globalFakeToReal (incExhaustions p) = globalFakeToReal p"
  "globalFakeToReal (addAllocations n p) = globalFakeToReal p"
  by (simp_all add: prim_defs)

lemma globalVersions_prims [pool_simps]:
  "globalVersions (delGlobal f p) = (globalVersions p)(f := None)"
  "globalVersions (setGlobal f r ver p) = (globalVersions p)(f \<mapsto> ver)"
  "globalVersions (delReal i r p) = globalVersions p"
  "globalVersions (setReal i r f e p) = globalVersions p"
  "globalVersions (setExpiry i r e p) = globalVersions p"
  "globalVersions (incCollisions p) = globalVersions p"
  "globalVersions (incExhaustions p) = globalVersions p"
  "globalVersions (addAllocations n p) = globalVersions p"
  by (simp_all add: prim_defs)

lemma shards_prims [pool_simps]:
  "shards (delGlobal f p) = shards p"
  "shards (setGlobal f r ver p) = shards p"
  "shards (incCollisions p) = shards p"
  "shards (incExhaustions p) = shards p"
  "shards (addAllocations n p) = shards p"
  "length (shards (delReal i r p)) = length (shards p)"
  "length (shards (setReal i r f e p)) = length (shards p)"
  "length (shards (setExpiry i r e p)) = length (shards p)"
  by (simp_all add: prim_defs)

lemma realToFake_prims [pool_simps]:
  "i < length (shards p) \<Longrightarrow> realToFake (shards (delReal i r p) ! j) =
     (if j = i then (realToFake (shards p ! j))(r := None) else realToFake (shards p ! j))"
  "i < length (shards p) \<Longrightarrow> realToFake (shards (setReal i r f e p) ! j) =
     (if j = i then (realToFake (shards p ! j))(r \<mapsto> f) else realToFake (shards p ! j))"
  "i < length (shards p) \<Longrightarrow> realToFake (shards (setExpiry i r e p) ! j) = realToFake (shards p ! j)"
  by (simp_all add: prim_defs nth_list_update)

lemma expiries_prims [pool_simps]:
  "i < length (shards p) \<Longrightarrow> expiries (shards (delReal i r p) ! j) =
     (if j = i then (expiries (shards p ! j))(r := None) else expiries (shards p ! j))"
  "i < length (shards p) \<Longrightarrow> expiries (shards (setReal i r f e p) ! j) =
     (if j = i then (expiries (shards p ! j))(r \<mapsto> e) else expiries (shards p ! j))"
  "i < length (shards p) \<Longrightarrow> expiries (shards (setExpiry i r e p) ! j) =
     (if j = i then (expiries (shards p ! j))(r \<mapsto> e) else expiries (shards p ! j))"
  by (simp_all add: prim_defs nth_list_update)

lemma fakeOf_moves [pool_simps]:
  assumes "length (shards p) = 64"
  shows "fakeOf (evict r f p) = (fakeOf p)(r := None)"
    "fakeOf (bind_pair r f ver e p) = (fakeOf p)(r \<mapsto> f)"
    "fakeOf (touch r e p) = fakeOf p"
  using assms by (auto simp: fun_eq_iff fakeOf_def evict_def bind_pair_def touch_def pool_simps)

lemma expiryOf_moves [pool_simps]:
  assumes "length (shards p) = 64"
  shows "expiryOf (evict r f p) = (expiryOf p)(r := None)"
    "expiryOf (bind_pair r f ver e p) = (expiryOf p)(r \<mapsto> e)"
    "expiryOf (touch r e p) = (expiryOf p)(r \<mapsto> e)"
  using assms by (auto simp: fun_eq_iff expiryOf_def evict_def bind_pair_def touch_def pool_simps)

lemma global_moves [pool_simps]:
  "globalFakeToReal (evict r f p) = (globalFakeToReal p)(f := None)"
  "globalFakeToReal (bind_pair r f ver e p) = (globalFakeToReal p)(f \<mapsto> r)"
  "globalFakeToReal (touch r e p) = globalFakeToReal p"
  "globalVersions (evict r f p) = (globalVersions p)(f := None)"
  "globalVersions (bind_pair r f ver e p) = (globalVersions p)(f \<mapsto> ver)"
  "globalVersions (touch r e p) = globalVersions p"
  "length (shards (evict r f p)) = length (shards p)"
  "length (shards (bind_pair r f ver e p)) = length (shards p)"
  "length (shards (touch r e p)) = length (shards p)"
  by (simp_all add: evict_def bind_pair_def touch_def pool_simps)

subsection \<open>The invariant\<close>

lemma pool_inv_length: "pool_inv p \<Longrightarrow> length (shards p) = 64"
  by (simp add: pool_inv_def)

lemma pool_inv_bij: "pool_inv p \<Longrightarrow> fakeOf p r = Some f \<longleftrightarrow> globalFakeToReal p f = Some r"
  by (simp add: pool_inv_def)

lemma pool_inv_wf:
  "pool_inv p \<Longrightarrow> globalFakeToReal p f = Some r \<Longrightarrow> wf_key r \<and> wf_key f"
  by (simp add: pool_inv_def)

lemma pool_inv_versions: "pool_inv p \<Longrightarrow> globalVersions p f = None \<longleftrightarrow> globalFakeToReal p f = None"
  unfolding pool_inv_def by (metis domIff)

lemma pool_inv_expiry: "pool_inv p \<Longrightarrow> expiryOf p r = None \<longleftrightarrow> fakeOf p r = None"
  unfolding pool_inv_def expiryOf_def fakeOf_def using keyShard_less [of r] by (metis domIff)

lemma pool_inv_shard:
  "pool_inv p \<Longrightarrow> i < 64 \<Longrightarrow> realToFake (shards p ! i) r = Some f \<Longrightarrow> i = keyShard r"
  unfolding pool_inv_def by (metis option.distinct(1))

text \<open>The invariant depends on the maps only.\<close>

lemma pool_inv_frame:
  assumes "pool_inv p" "shards q = shards p" "globalFakeToReal q = globalFakeToReal p"
    "globalVersions q = globalVersions p"
  shows "pool_inv q"
  using assms by (simp add: pool_inv_def fakeOf_def)

lemma pool_inv_evict [pool_intros]:
  assumes inv: "pool_inv p" and rf: "fakeOf p r = Some f"
  shows "pool_inv (evict r f p)"
proof -
  have len: "length (shards p) = 64" using inv by (rule pool_inv_length)
  have gf: "globalFakeToReal p f = Some r" using inv rf by (simp add: pool_inv_bij)
  have "\<forall>r' f'. fakeOf (evict r f p) r' = Some f' \<longleftrightarrow> globalFakeToReal (evict r f p) f' = Some r'"
    by (simp add: pool_simps len) (metis gf rf pool_inv_bij [OF inv] option.inject)
  moreover have "\<forall>i<64. \<forall>r'. realToFake (shards (evict r f p) ! i) r' \<noteq> None \<longrightarrow> i = keyShard r'"
    using inv len by (auto simp: evict_def pool_simps pool_inv_def)
  moreover have "\<forall>i<64. dom (expiries (shards (evict r f p) ! i)) = dom (realToFake (shards (evict r f p) ! i))"
    using inv len by (auto simp: evict_def pool_simps pool_inv_def)
  ultimately show ?thesis using inv unfolding pool_inv_def by (auto simp: pool_simps)
qed

lemma pool_inv_bind [pool_intros]:
  assumes inv: "pool_inv p" and free: "fakeOf p r = None" "globalFakeToReal p f = None"
    and wf: "wf_key r" "wf_key f"
  shows "pool_inv (bind_pair r f ver e p)"
proof -
  have len: "length (shards p) = 64" using inv by (rule pool_inv_length)
  let ?q = "bind_pair r f ver e p"
  have "\<forall>r' f'. fakeOf ?q r' = Some f' \<longleftrightarrow> globalFakeToReal ?q f' = Some r'"
    by (simp add: pool_simps len) (metis free pool_inv_bij [OF inv] option.distinct(1))
  moreover have "\<forall>i<64. \<forall>r'. realToFake (shards ?q ! i) r' \<noteq> None \<longrightarrow> i = keyShard r'"
    using inv len by (auto simp: bind_pair_def pool_simps pool_inv_def)
  moreover have "\<forall>i<64. dom (expiries (shards ?q ! i)) = dom (realToFake (shards ?q ! i))"
    using inv len by (auto simp: bind_pair_def pool_simps pool_inv_def)
  ultimately show ?thesis using inv wf unfolding pool_inv_def by (auto simp: pool_simps)
qed

lemma pool_inv_touch [pool_intros]:
  assumes inv: "pool_inv p" and rf: "fakeOf p r \<noteq> None"
  shows "pool_inv (touch r e p)"
proof -
  have len: "length (shards p) = 64" using inv by (rule pool_inv_length)
  have "\<forall>i<64. dom (expiries (shards (touch r e p) ! i)) = dom (realToFake (shards (touch r e p) ! i))"
    using inv len rf by (auto simp: touch_def pool_simps pool_inv_def fakeOf_def)
  moreover have "\<forall>i<64. \<forall>r'. realToFake (shards (touch r e p) ! i) r' \<noteq> None \<longrightarrow> i = keyShard r'"
    using inv len by (auto simp: touch_def pool_simps pool_inv_def)
  ultimately show ?thesis using inv unfolding pool_inv_def by (auto simp: pool_simps)
qed

subsection \<open>A new pool\<close>

lemma NewIPPool_maps [simp]:
  "globalFakeToReal (NewIPPoolWithConfig b4 b6 cfg) = Map.empty"
  "globalVersions (NewIPPoolWithConfig b4 b6 cfg) = Map.empty"
  "fakeOf (NewIPPoolWithConfig b4 b6 cfg) = Map.empty"
  "expiryOf (NewIPPoolWithConfig b4 b6 cfg) = Map.empty"
  by (simp_all add: NewIPPoolWithConfig_def Let_def fun_eq_iff fakeOf_def expiryOf_def emptyShard_def)

lemma pool_inv_New [pool_intros]: "pool_inv (NewIPPoolWithConfig b4 b6 cfg)"
  by (simp add: pool_inv_def) (simp add: NewIPPoolWithConfig_def Let_def emptyShard_def)

end
