(* ===== verification/PoolOps.thy ===== *)
theory PoolOps
  imports PoolInv
begin

text \<open>
  Each operation of the pool as a sequence of moves (evict, bind, touch, and changes outside the
  maps). Preservation of the invariant, the functional behaviour of every branch, and the
  correspondence with the specification of theory \<^verbatim>\<open>PoolSpec\<close> are derived from these equations.
\<close>

subsection \<open>Definitions\<close>

text \<open>The guard of \<^const>\<open>AddMapping\<close> over all shards, and the evictions that an accepted mapping needs.\<close>

definition addBlocked :: "IPPool \<Rightarrow> IPKey \<Rightarrow> IPKey \<Rightarrow> u64 \<Rightarrow> bool" where
  "addBlocked p r f ver \<longleftrightarrow>
     (\<exists>er. globalFakeToReal p f = Some er \<and> staleFor ver r (globalVersions p f) er) \<or>
     (\<exists>ef. fakeOf p r = Some ef \<and> ef \<noteq> f \<and> staleFor ver f (globalVersions p ef) ef)"

definition evictFake :: "IPKey \<Rightarrow> IPPool \<Rightarrow> IPPool" where
  "evictFake f p = (case globalFakeToReal p f of None \<Rightarrow> p | Some r \<Rightarrow> evict r f p)"

definition evictReal :: "IPKey \<Rightarrow> IPPool \<Rightarrow> IPPool" where
  "evictReal r p = (case fakeOf p r of None \<Rightarrow> p | Some f \<Rightarrow> evict r f p)"

inductive pool_move :: "IPPool \<Rightarrow> IPPool \<Rightarrow> bool" where
  move_evict: "fakeOf p r = Some f \<Longrightarrow> pool_move p (evict r f p)"
| move_bind: "fakeOf p r = None \<Longrightarrow> globalFakeToReal p f = None \<Longrightarrow> wf_key r \<Longrightarrow> wf_key f \<Longrightarrow>
    pool_move p (bind_pair r f ver e p)"
| move_touch: "fakeOf p r \<noteq> None \<Longrightarrow> pool_move p (touch r e p)"
| move_frame: "pool_move p (p\<lparr>hlc := h, ctr := c, stopped := b\<rparr>)"

subsection \<open>Moves keep the invariant and the configuration\<close>

definition same_config :: "IPPool \<Rightarrow> IPPool \<Rightarrow> bool" where
  "same_config p q \<longleftrightarrow> poolStart q = poolStart p \<and> poolSize q = poolSize p \<and> cidrMask q = cidrMask p \<and>
     poolStart6 q = poolStart6 p \<and> poolSize6 q = poolSize6 p \<and> cidrMask6 q = cidrMask6 p"

lemma pool_move_inv: "pool_move p q \<Longrightarrow> pool_inv p \<Longrightarrow> pool_inv q"
  by (induction rule: pool_move.induct) (auto intro: pool_intros pool_inv_frame)

interpretation pool_moves: invariant_system pool_move pool_inv
  by unfold_locales (rule pool_move_inv)

lemma pool_move_config: "pool_move p q \<Longrightarrow> same_config a p \<Longrightarrow> same_config a q"
  by (induction rule: pool_move.induct) (auto simp: same_config_def prim_defs)

interpretation config_moves: invariant_system pool_move "same_config a"
  by unfold_locales (rule pool_move_config)

lemma same_config_refl [simp]: "same_config p p"
  by (simp add: same_config_def)

lemma moves_config: "pool_move\<^sup>*\<^sup>* p q \<Longrightarrow> same_config p q"
  by (erule config_moves.run_inv) simp

subsection \<open>Algebra of the primitive updates\<close>

lemma ctr_prims [pool_simps]:
  "delGlobal f (p\<lparr>ctr := c\<rparr>) = (delGlobal f p)\<lparr>ctr := c\<rparr>"
  "setGlobal f r ver (p\<lparr>ctr := c\<rparr>) = (setGlobal f r ver p)\<lparr>ctr := c\<rparr>"
  "delReal i r (p\<lparr>ctr := c\<rparr>) = (delReal i r p)\<lparr>ctr := c\<rparr>"
  "setReal i r f e (p\<lparr>ctr := c\<rparr>) = (setReal i r f e p)\<lparr>ctr := c\<rparr>"
  "setExpiry i r e (p\<lparr>ctr := c\<rparr>) = (setExpiry i r e p)\<lparr>ctr := c\<rparr>"
  by (simp_all add: prim_defs)

lemma hlc_prims [pool_simps]:
  "setGlobal f r ver (p\<lparr>hlc := h\<rparr>) = (setGlobal f r ver p)\<lparr>hlc := h\<rparr>"
  "setReal i r f e (p\<lparr>hlc := h\<rparr>) = (setReal i r f e p)\<lparr>hlc := h\<rparr>"
  by (simp_all add: prim_defs)

lemma global_algebra:
  "setGlobal f r ver (delGlobal f p) = setGlobal f r ver p"
  "delReal i r (delGlobal f p) = delGlobal f (delReal i r p)"
  "setReal i r f' e (delGlobal f p) = delGlobal f (setReal i r f' e p)"
  by (simp_all add: prim_defs fun_upd_idem_iff fun_upd_twist)

lemma setGlobal_delGlobal_neq:
  "f \<noteq> g \<Longrightarrow> setGlobal f r ver (delGlobal g p) = delGlobal g (setGlobal f r ver p)"
  by (simp add: prim_defs fun_upd_twist)

lemma setReal_delReal: "i < length (shards p) \<Longrightarrow> setReal i r f e (delReal i r p) = setReal i r f e p"
  by (simp add: prim_defs)

lemma delGlobal_twice: "delGlobal f (delGlobal g p) = delGlobal g (delGlobal f p)"
  by (cases "f = g") (simp_all add: prim_defs fun_upd_twist)

subsection \<open>Adding a mapping\<close>

lemma AddMapping_cases:
  fixes realIP fakeIP :: IP
  assumes inv: "pool_inv p" and vr: "valid_IP realIP"
  defines "r \<equiv> ToIPKey realIP" and "f \<equiv> ToIPKey fakeIP"
  shows "\<exists>c. AddMapping realIP fakeIP ver e p =
    (if addBlocked p r f ver then (False, p\<lparr>ctr := c\<rparr>)
     else (True, (bind_pair r f ver e (evictReal r (evictFake f p)))\<lparr>ctr := c\<rparr>))"
proof -
  have len: "keyShard r < length (shards p)" using pool_inv_length [OF inv] by simp
  have bij: "\<And>r f. fakeOf p r = Some f \<longleftrightarrow> globalFakeToReal p f = Some r"
    using pool_inv_bij [OF inv] by simp
  have sh: "getShardIndex realIP = keyShard r" using vr by (simp add: r_def)
  have rf: "realToFake (shards p ! keyShard r) r = fakeOf p r" by (simp add: fakeOf_def)
  note defs = AddMapping_def Let_def sh r_def [symmetric] f_def [symmetric] incCollisions_def
    addBlocked_def evictFake_def evictReal_def bind_pair_def evict_def keyShard_def [symmetric]
  consider (new) "globalFakeToReal p f = None" "fakeOf p r = None"
    | (moved) ef where "globalFakeToReal p f = None" "fakeOf p r = Some ef" "ef \<noteq> f"
    | (taken) er where "globalFakeToReal p f = Some er" "er \<noteq> r" "fakeOf p r = None"
    | (both) er ef where "globalFakeToReal p f = Some er" "er \<noteq> r" "fakeOf p r = Some ef" "ef \<noteq> f"
    | (same) "globalFakeToReal p f = Some r" "fakeOf p r = Some f"
    using bij by (metis option.exhaust option.inject)
  then show ?thesis
  proof cases
    case new
    then show ?thesis by (auto simp: defs rf pool_simps prim_defs intro!: exI [of _ "ctr p"])
  next
    case moved
    then show ?thesis using len
      by (auto simp: defs rf pool_simps global_algebra setReal_delReal)
  next
    case taken
    then show ?thesis using len fakeOf_moves(1) [OF pool_inv_length [OF inv], of er f]
      by (auto simp: defs rf pool_simps global_algebra)
  next
    case both
    then show ?thesis using len fakeOf_moves(1) [OF pool_inv_length [OF inv], of er f]
      by (auto simp: defs rf pool_simps global_algebra setReal_delReal setGlobal_delGlobal_neq
          delGlobal_twice)
  next
    case same
    then show ?thesis using len fakeOf_moves(1) [OF pool_inv_length [OF inv], of r f]
      by (auto simp: defs rf pool_simps global_algebra setReal_delReal)
  qed
qed

lemma move_ctr: "pool_move p (p\<lparr>ctr := c\<rparr>)"
  using move_frame [where p = p and h = "hlc p" and c = c and b = "stopped p"] by simp

lemma move_hlc: "pool_move p (p\<lparr>hlc := h\<rparr>)"
  using move_frame [where p = p and h = h and c = "ctr p" and b = "stopped p"] by simp

lemma evictFake_moves: "pool_inv p \<Longrightarrow> pool_move\<^sup>*\<^sup>* p (evictFake f p)"
  by (auto simp: evictFake_def pool_inv_bij [symmetric] intro: move_evict split: option.splits)

lemma evictReal_moves: "pool_move\<^sup>*\<^sup>* p (evictReal r p)"
  by (auto simp: evictReal_def intro: move_evict split: option.splits)

lemma evictFake_free: "globalFakeToReal (evictFake f p) f = None"
  by (auto simp: evictFake_def pool_simps split: option.splits)

lemma evictReal_free:
  assumes "length (shards p) = 64"
  shows "fakeOf (evictReal r p) r = None"
    "globalFakeToReal p f = None \<Longrightarrow> globalFakeToReal (evictReal r p) f = None"
  using assms by (auto simp: evictReal_def pool_simps split: option.splits)

lemma AddMapping_moves:
  assumes inv: "pool_inv p" and vr: "valid_IP realIP"
  shows "pool_move\<^sup>*\<^sup>* p (snd (AddMapping realIP fakeIP ver e p))"
proof -
  let ?r = "ToIPKey realIP" and ?f = "ToIPKey fakeIP"
  let ?q = "evictReal ?r (evictFake ?f p)"
  have "pool_move\<^sup>*\<^sup>* p (evictFake ?f p)" using inv by (rule evictFake_moves)
  moreover from this have "length (shards (evictFake ?f p)) = 64"
    using inv pool_moves.run_inv pool_inv_length by blast
  ultimately have q: "pool_move\<^sup>*\<^sup>* p ?q" "fakeOf ?q ?r = None" "globalFakeToReal ?q ?f = None"
    using evictReal_moves evictReal_free evictFake_free by (auto intro: rtranclp_trans)
  then have b: "pool_move\<^sup>*\<^sup>* p (bind_pair ?r ?f ver e ?q)"
    by (auto intro: move_bind rtranclp.rtrancl_into_rtrancl)
  from AddMapping_cases [OF inv vr] obtain c where
    "snd (AddMapping realIP fakeIP ver e p) = p\<lparr>ctr := c\<rparr> \<or>
     snd (AddMapping realIP fakeIP ver e p) = (bind_pair ?r ?f ver e ?q)\<lparr>ctr := c\<rparr>"
    by (metis snd_conv)
  then show ?thesis using b move_ctr by (metis rtranclp.simps)
qed

subsection \<open>Removing, reserving and pruning\<close>

lemma RemoveMapping_eq:
  "valid_IP realIP \<Longrightarrow> RemoveMapping realIP fakeIP p =
     (if fakeOf p (ToIPKey realIP) = Some (ToIPKey fakeIP)
      then evict (ToIPKey realIP) (ToIPKey fakeIP) p else p)"
  by (simp add: RemoveMapping_def Let_def evict_def fakeOf_def)

lemma RemoveMapping_moves: "valid_IP realIP \<Longrightarrow> pool_move\<^sup>*\<^sup>* p (RemoveMapping realIP fakeIP p)"
  by (auto simp: RemoveMapping_eq intro: move_evict)

definition reserve_pair :: "IP \<Rightarrow> IP \<Rightarrow> u64 \<Rightarrow> int \<Rightarrow> IPPool \<Rightarrow> (bool \<times> IP option) \<times> IPPool" where
  "reserve_pair realIP fakeIP ver e p =
     (if globalFakeToReal p (ToIPKey fakeIP) \<noteq> None then ((False, None), p)
      else ((True, Some fakeIP), bind_pair (ToIPKey realIP) (ToIPKey fakeIP) ver e p))"

lemma TryReserve_eq:
  assumes inv: "pool_inv p" and vr: "valid_IP realIP"
  defines "r \<equiv> ToIPKey realIP"
  shows "TryReserve realIP fakeIP ver e now1 now2 p =
    (case fakeOf p r of
       None \<Rightarrow> reserve_pair realIP fakeIP ver e p
     | Some ef \<Rightarrow>
         if now1 < the (expiryOf p r)
         then ((True, Some (ToIP ef)),
           if the (expiryOf p r) < now2 + 5 * minute then touch r e p else p)
         else reserve_pair realIP fakeIP ver e (evict r ef p))"
proof -
  have "fakeOf p r = Some ef \<Longrightarrow> \<exists>x. expiryOf p r = Some x" for ef
    using pool_inv_expiry [OF inv, of r] by auto
  then show ?thesis using vr
    by (auto simp: TryReserve_def Let_def fakeOf_def [symmetric] expiryOf_def [symmetric] r_def
        fakeOf_def [of p] expiryOf_def [of p]
        reserve_pair_def bind_pair_def evict_def touch_def global_algebra split: option.splits)
qed

lemma reserve_pair_moves:
  "fakeOf p (ToIPKey realIP) = None \<Longrightarrow> pool_move\<^sup>*\<^sup>* p (snd (reserve_pair realIP fakeIP ver e p))"
  by (auto simp: reserve_pair_def intro: move_bind)

lemma TryReserve_moves:
  assumes inv: "pool_inv p" and vr: "valid_IP realIP"
  shows "pool_move\<^sup>*\<^sup>* p (snd (TryReserve realIP fakeIP ver e now1 now2 p))"
proof (cases "fakeOf p (ToIPKey realIP)")
  case None
  then show ?thesis by (simp add: TryReserve_eq [OF inv vr] reserve_pair_moves)
next
  case (Some ef)
  then have "pool_move p (evict (ToIPKey realIP) ef p)" by (rule move_evict)
  moreover have "fakeOf (evict (ToIPKey realIP) ef p) (ToIPKey realIP) = None"
    using pool_inv_length [OF inv] by (simp add: pool_simps)
  ultimately have "pool_move\<^sup>*\<^sup>* p (snd (reserve_pair realIP fakeIP ver e (evict (ToIPKey realIP) ef p)))"
    by (meson converse_rtranclp_into_rtranclp reserve_pair_moves)
  then show ?thesis using Some by (auto simp: TryReserve_eq [OF inv vr] intro: move_touch)
qed

lemma prune_delete_moves:
  "pool_inv p \<Longrightarrow> i < 64 \<Longrightarrow> pool_move\<^sup>*\<^sup>* p (prune_delete now i ps p)"
proof (induction now i ps p rule: prune_delete.induct)
  case (2 now i r f ps p)
  let ?q = "case expiries (shards p ! i) r of None \<Rightarrow> p
     | Some e \<Rightarrow> if e < now \<and> realToFake (shards p ! i) r = Some f
         then delGlobal f (delReal i r p) else p"
  have "pool_move\<^sup>*\<^sup>* p ?q"
  proof (cases "realToFake (shards p ! i) r = Some f")
    case True
    then have "i = keyShard r" using 2 pool_inv_shard by blast
    with True have "pool_move p (delGlobal f (delReal i r p))"
      using move_evict [of p r f] by (simp add: evict_def fakeOf_def)
    then show ?thesis by (auto split: option.splits)
  qed (auto split: option.splits)
  moreover from this have "pool_inv ?q" using 2 pool_moves.run_inv by blast
  ultimately show ?case using 2 by (auto intro: rtranclp_trans)
qed simp

lemma fold_moves:
  assumes "\<And>x q. x \<in> set xs \<Longrightarrow> pool_inv q \<Longrightarrow> pool_move\<^sup>*\<^sup>* q (g x q)" "pool_inv p"
  shows "pool_move\<^sup>*\<^sup>* p (fold g xs p)"
  using assms
proof (induction xs arbitrary: p)
  case (Cons x xs)
  then have "pool_move\<^sup>*\<^sup>* p (g x p)" "pool_inv (g x p)"
    using pool_moves.run_inv by force+
  with Cons show ?case by (auto intro: rtranclp_trans)
qed simp

lemma PruneExpired_moves: "pool_inv p \<Longrightarrow> pool_move\<^sup>*\<^sup>* p (PruneExpired now visit p)"
  unfolding PruneExpired_def
  by (rule fold_moves) (auto simp: prune_shard_def intro: prune_delete_moves)

end
