(* ===== verification/PoolAlloc.thy ===== *)
theory PoolAlloc
  imports PoolOps
begin

text \<open>
  Allocation of fake addresses: what probing finds, that an allocation is a sequence of moves, what
  a successful call of \<^verbatim>\<open>GetFakeIPsForReals\<close> returns, and what a failed call leaves behind.
\<close>

subsection \<open>Definitions\<close>

definition candidate4 :: "IPPool \<Rightarrow> u32 \<Rightarrow> nat \<Rightarrow> u32" where
  "candidate4 p naturalOffset k = poolStart p + (naturalOffset + of_nat k) mod poolSize p"

definition candidate6 :: "IPPool \<Rightarrow> u32 \<Rightarrow> nat \<Rightarrow> IP" where
  "candidate6 p naturalOffset k = take 12 (poolStart6 p) @
     BigEndian_PutUint32 (BigEndian_Uint32 (drop 12 (poolStart6 p)) + (naturalOffset + of_nat k) mod poolSize6 p)"

definition usable4 :: "IPPool \<Rightarrow> u32 \<Rightarrow> bool" where
  "usable4 p c \<longleftrightarrow> c mod 256 \<noteq> 0 \<and> c mod 256 \<noteq> 255 \<and> globalFakeToReal p (ToIPKey (u32_IPv4 c)) = None"

definition usable6 :: "IPPool \<Rightarrow> IP \<Rightarrow> bool" where
  "usable6 p ip \<longleftrightarrow> globalFakeToReal p (ToIPKey ip) = None"

text \<open>The slots an allocation may use, in the order in which they are tried after the natural slot.\<close>

definition naturalOffset4 :: "IP \<Rightarrow> IPPool \<Rightarrow> u32" where
  "naturalOffset4 realIP p =
     BigEndian_Uint32 (slice (To4 (ComputeLevel1Hash realIP False p))) - poolStart p"

definition naturalOffset6 :: "IP \<Rightarrow> IPPool \<Rightarrow> u32" where
  "naturalOffset6 realIP p = BigEndian_Uint32 (drop 12 (ComputeLevel1Hash realIP True p))
     - BigEndian_Uint32 (drop 12 (poolStart6 p))"

subsection \<open>Probing\<close>

lemma probe4_None_iff:
  "probe4 p off n (of_nat a) = None \<longleftrightarrow> (\<forall>k. a \<le> k \<and> k < a + n \<longrightarrow> \<not> usable4 p (candidate4 p off k))"
proof (induction n arbitrary: a)
  case (Suc n)
  have step: "probe4 p off (Suc n) (of_nat a) =
    (if usable4 p (candidate4 p off a) then Some (u32_IPv4 (candidate4 p off a))
     else probe4 p off n (of_nat (Suc a)))"
    by (simp add: usable4_def candidate4_def Let_def add.commute)
  have split: "a \<le> k \<and> k < a + Suc n \<longleftrightarrow> k = a \<or> Suc a \<le> k \<and> k < Suc a + n" for k by auto
  show ?case unfolding step split using Suc [of "Suc a"] by auto
qed auto

lemma probe4_Some:
  "probe4 p off n (of_nat a) = Some ip \<Longrightarrow>
     \<exists>k. a \<le> k \<and> k < a + n \<and> ip = u32_IPv4 (candidate4 p off k) \<and> usable4 p (candidate4 p off k)
       \<and> (\<forall>j. a \<le> j \<and> j < k \<longrightarrow> \<not> usable4 p (candidate4 p off j))"
proof (induction n arbitrary: a)
  case (Suc n)
  show ?case
  proof (cases "usable4 p (candidate4 p off a)")
    case True
    with Suc.prems show ?thesis
      by (intro exI [of _ a]) (auto simp: usable4_def candidate4_def Let_def)
  next
    case False
    with Suc.prems have "probe4 p off n (of_nat (Suc a)) = Some ip"
      by (simp add: usable4_def candidate4_def Let_def add.commute split: if_splits)
    from Suc.IH [OF this] obtain k where k: "Suc a \<le> k" "k < Suc a + n"
      "ip = u32_IPv4 (candidate4 p off k)" "usable4 p (candidate4 p off k)"
      "\<forall>j. Suc a \<le> j \<and> j < k \<longrightarrow> \<not> usable4 p (candidate4 p off j)" by blast
    have "\<forall>j. a \<le> j \<and> j < k \<longrightarrow> \<not> usable4 p (candidate4 p off j)"
      using k(5) False by (metis Suc_leI le_neq_implies_less)
    with k show ?thesis by (intro exI [of _ k]) auto
  qed
qed simp

lemma probe6_None_iff:
  "probe6 p off n (of_nat a) = None \<longleftrightarrow> (\<forall>k. a \<le> k \<and> k < a + n \<longrightarrow> \<not> usable6 p (candidate6 p off k))"
proof (induction n arbitrary: a)
  case (Suc n)
  have step: "probe6 p off (Suc n) (of_nat a) =
    (if usable6 p (candidate6 p off a) then Some (candidate6 p off a)
     else probe6 p off n (of_nat (Suc a)))"
    by (simp add: usable6_def candidate6_def Let_def add.commute)
  have split: "a \<le> k \<and> k < a + Suc n \<longleftrightarrow> k = a \<or> Suc a \<le> k \<and> k < Suc a + n" for k by auto
  show ?case unfolding step split using Suc [of "Suc a"] by auto
qed auto

lemma probe6_Some:
  "probe6 p off n (of_nat a) = Some ip \<Longrightarrow>
     \<exists>k. a \<le> k \<and> k < a + n \<and> ip = candidate6 p off k \<and> usable6 p (candidate6 p off k)"
proof (induction n arbitrary: a)
  case (Suc n)
  show ?case
  proof (cases "usable6 p (candidate6 p off a)")
    case True
    with Suc.prems show ?thesis
      by (intro exI [of _ a]) (simp add: usable6_def candidate6_def Let_def)
  next
    case False
    with Suc.prems have "probe6 p off n (of_nat (Suc a)) = Some ip"
      by (simp add: usable6_def candidate6_def Let_def add.commute split: if_splits)
    from Suc.IH [OF this] show ?thesis by (metis Suc_leD add_Suc add_Suc_right)
  qed
qed simp

lemma chooseFake4_cases:
  assumes "chooseFake realIP False p = Some ip"
  shows "ip = ComputeLevel1Hash realIP False p \<and> globalFakeToReal p (ToIPKey ip) = None \<or>
    (\<exists>k < maxAttempts (poolSize p). ip = u32_IPv4 (candidate4 p (naturalOffset4 realIP p) k) \<and>
       usable4 p (candidate4 p (naturalOffset4 realIP p) k))"
proof (cases "globalFakeToReal p (ToIPKey (ComputeLevel1Hash realIP False p)) = None")
  case False
  with assms have "probe4 p (naturalOffset4 realIP p) (maxAttempts (poolSize p)) (of_nat 0) = Some ip"
    by (simp add: chooseFake_def naturalOffset4_def Let_def)
  from probe4_Some [OF this] show ?thesis by auto
qed (use assms in \<open>simp add: chooseFake_def Let_def\<close>)

lemma chooseFake6_cases:
  assumes "chooseFake realIP True p = Some ip"
  shows "ip = ComputeLevel1Hash realIP True p \<and> globalFakeToReal p (ToIPKey ip) = None \<or>
    (\<exists>k < maxAttempts (poolSize6 p). ip = candidate6 p (naturalOffset6 realIP p) k \<and>
       usable6 p (candidate6 p (naturalOffset6 realIP p) k))"
proof (cases "globalFakeToReal p (ToIPKey (ComputeLevel1Hash realIP True p)) = None")
  case False
  with assms have "probe6 p (naturalOffset6 realIP p) (maxAttempts (poolSize6 p)) (of_nat 0) = Some ip"
    by (simp add: chooseFake_def naturalOffset6_def Let_def)
  from probe6_Some [OF this] show ?thesis by auto
qed (use assms in \<open>simp add: chooseFake_def Let_def\<close>)

lemma chooseFake_free: "chooseFake realIP v6flag p = Some ip \<Longrightarrow> globalFakeToReal p (ToIPKey ip) = None"
  by (cases v6flag) (auto dest!: chooseFake4_cases chooseFake6_cases simp: usable4_def usable6_def)

subsection \<open>Allocation as moves\<close>

lemma alloc_fresh_eq:
  "valid_IP realIP \<Longrightarrow> alloc_fresh v6flag now clk realIP p =
    (case chooseFake realIP v6flag p of
       None \<Rightarrow> (Exhausted, p)
     | Some ip \<Rightarrow> (Fresh ip (fst (GetNextVersion clk p)),
         (bind_pair (ToIPKey realIP) (ToIPKey ip) (fst (GetNextVersion clk p)) (now + MappingTTL) p)
           \<lparr>hlc := fst (GetNextVersion clk p)\<rparr>))"
  by (simp add: alloc_fresh_def GetNextVersion_def Let_def bind_pair_def pool_simps
      split: option.splits)

lemma alloc_locked_eq:
  assumes inv: "pool_inv p" and vr: "valid_IP realIP"
  defines "r \<equiv> ToIPKey realIP"
  shows "alloc_locked v6flag now clk realIP p =
    (case fakeOf p r of
       None \<Rightarrow> alloc_fresh v6flag now clk realIP p
     | Some ef \<Rightarrow>
         if now < the (expiryOf p r)
         then (Reused (ToIP ef),
           if the (expiryOf p r) < now + 5 * minute then touch r (now + MappingTTL) p else p)
         else alloc_fresh v6flag now clk realIP (evict r ef p))"
proof -
  have "fakeOf p r = Some ef \<Longrightarrow> \<exists>x. expiryOf p r = Some x" for ef
    using pool_inv_expiry [OF inv, of r] by auto
  then show ?thesis using vr
    by (auto simp: alloc_locked_def Let_def fakeOf_def expiryOf_def r_def touch_def evict_def
        global_algebra split: option.splits)
qed

lemma lookup_fast_eq:
  "valid_IP realIP \<Longrightarrow> lookup_fast now realIP p =
    (case fakeOf p (ToIPKey realIP) of
       Some f \<Rightarrow> if now + 5 * minute < (case expiryOf p (ToIPKey realIP) of Some e \<Rightarrow> e | None \<Rightarrow> zeroTime)
         then Some (ToIP f) else None
     | None \<Rightarrow> None)"
  by (auto simp: lookup_fast_def Let_def fakeOf_def expiryOf_def split: option.splits)

lemma alloc_fresh_moves:
  assumes "fakeOf p (ToIPKey realIP) = None" "valid_IP realIP"
  shows "pool_move\<^sup>*\<^sup>* p (snd (alloc_fresh v6flag now clk realIP p))"
proof (cases "chooseFake realIP v6flag p")
  case (Some ip)
  have "pool_move p (bind_pair (ToIPKey realIP) (ToIPKey ip) (fst (GetNextVersion clk p)) (now + MappingTTL) p)"
    using assms chooseFake_free [OF Some] by (intro move_bind) auto
  then show ?thesis using Some assms move_hlc
    by (auto simp: alloc_fresh_eq intro: rtranclp.rtrancl_into_rtrancl)
qed (simp add: alloc_fresh_eq assms)

lemma alloc_locked_moves:
  assumes inv: "pool_inv p" and vr: "valid_IP realIP"
  shows "pool_move\<^sup>*\<^sup>* p (snd (alloc_locked v6flag now clk realIP p))"
proof (cases "fakeOf p (ToIPKey realIP)")
  case None
  then show ?thesis using vr by (simp add: alloc_locked_eq [OF inv vr] alloc_fresh_moves)
next
  case (Some ef)
  then have "pool_move p (evict (ToIPKey realIP) ef p)" by (rule move_evict)
  moreover have "fakeOf (evict (ToIPKey realIP) ef p) (ToIPKey realIP) = None"
    using pool_inv_length [OF inv] by (simp add: pool_simps)
  ultimately have "pool_move\<^sup>*\<^sup>* p (snd (alloc_fresh v6flag now clk realIP (evict (ToIPKey realIP) ef p)))"
    using vr by (meson converse_rtranclp_into_rtranclp alloc_fresh_moves)
  then show ?thesis using Some by (auto simp: alloc_locked_eq [OF inv vr] intro: move_touch)
qed

lemma alloc_locked_inv:
  "pool_inv p \<Longrightarrow> valid_IP realIP \<Longrightarrow> alloc_locked v6flag now clk realIP p = (x, q) \<Longrightarrow> pool_inv q"
  using alloc_locked_moves pool_moves.run_inv by (metis snd_conv)

subsection \<open>The effect of one allocation\<close>

text \<open>A real address is lapsed when it has no fake address or its lease is over; otherwise it is live.\<close>

definition lapsed :: "int \<Rightarrow> IPPool \<Rightarrow> IPKey \<Rightarrow> bool" where
  "lapsed now p r \<longleftrightarrow> (case fakeOf p r of None \<Rightarrow> True | Some _ \<Rightarrow> the (expiryOf p r) \<le> now)"

lemma MappingTTL_pos: "0 < MappingTTL"
  by (simp add: MappingTTL_def minute_def)

lemma hlc_frame [pool_simps]:
  "fakeOf (p\<lparr>hlc := h\<rparr>) = fakeOf p" "expiryOf (p\<lparr>hlc := h\<rparr>) = expiryOf p"
  by (simp_all add: fun_eq_iff fakeOf_def expiryOf_def)

lemma alloc_fresh_effect:
  assumes len: "length (shards p) = 64" and vr: "valid_IP realIP"
    and res: "alloc_fresh v6flag now clk realIP p = (x, q)"
  shows "\<forall>r'. r' \<noteq> ToIPKey realIP \<longrightarrow> fakeOf q r' = fakeOf p r' \<and> expiryOf q r' = expiryOf p r'"
    "x = Fresh f ver \<Longrightarrow> fakeOf q (ToIPKey realIP) = Some (ToIPKey f) \<and>
       expiryOf q (ToIPKey realIP) = Some (now + MappingTTL)"
    "x \<noteq> Reused f" "x = Exhausted \<Longrightarrow> q = p"
proof -
  from res show "\<forall>r'. r' \<noteq> ToIPKey realIP \<longrightarrow> fakeOf q r' = fakeOf p r' \<and> expiryOf q r' = expiryOf p r'"
    "x = Fresh f ver \<Longrightarrow> fakeOf q (ToIPKey realIP) = Some (ToIPKey f) \<and>
       expiryOf q (ToIPKey realIP) = Some (now + MappingTTL)"
    "x \<noteq> Reused f" "x = Exhausted \<Longrightarrow> q = p"
    by (auto simp: alloc_fresh_eq [OF vr] pool_simps len split: option.splits)
qed

lemma alloc_locked_effect:
  assumes inv: "pool_inv p" and vr: "valid_IP realIP"
    and res: "alloc_locked v6flag now clk realIP p = (x, q)"
  defines "r \<equiv> ToIPKey realIP"
  shows "r' \<noteq> r \<Longrightarrow> fakeOf q r' = fakeOf p r' \<and> expiryOf q r' = expiryOf p r'"
    "x = Reused f \<Longrightarrow> fakeOf p r = Some (ToIPKey f) \<and> fakeOf q r = Some (ToIPKey f) \<and>
       \<not> lapsed now p r \<and> \<not> lapsed now q r"
    "x = Fresh f ver \<Longrightarrow> fakeOf q r = Some (ToIPKey f) \<and> lapsed now p r \<and> \<not> lapsed now q r"
    "x = Exhausted \<Longrightarrow> fakeOf q r = None \<and> lapsed now p r"
proof -
  note len = pool_inv_length [OF inv]
  have wf: "fakeOf p r = Some ef \<Longrightarrow> wf_key ef" for ef
    using pool_inv_wf [OF inv, of ef r] pool_inv_bij [OF inv] by blast
  consider (free) "fakeOf p r = None" "alloc_fresh v6flag now clk realIP p = (x, q)"
    | (live) ef where "fakeOf p r = Some ef" "now < the (expiryOf p r)" "x = Reused (ToIP ef)"
        "q = p \<or> q = touch r (now + MappingTTL) p"
    | (old) ef where "fakeOf p r = Some ef" "the (expiryOf p r) \<le> now"
        "alloc_fresh v6flag now clk realIP (evict r ef p) = (x, q)"
    using res by (auto simp: alloc_locked_eq [OF inv vr] r_def split: option.splits if_splits)
  note cs = this
  show "r' \<noteq> r \<Longrightarrow> fakeOf q r' = fakeOf p r' \<and> expiryOf q r' = expiryOf p r'"
    using cs
  proof cases
    case old
    with alloc_fresh_effect(1) [OF _ vr old(3)] show "r' \<noteq> r \<Longrightarrow> ?thesis"
      by (simp add: r_def pool_simps len)
  qed (use alloc_fresh_effect(1) [OF len vr] in \<open>auto simp: r_def pool_simps len\<close>)
  show "x = Reused f \<Longrightarrow> fakeOf p r = Some (ToIPKey f) \<and> fakeOf q r = Some (ToIPKey f) \<and>
       \<not> lapsed now p r \<and> \<not> lapsed now q r"
    using cs
  proof cases
    case free
    with alloc_fresh_effect(3) [OF len vr free(2)] show "x = Reused f \<Longrightarrow> ?thesis" by simp
  next
    case live
    with wf MappingTTL_pos show "x = Reused f \<Longrightarrow> ?thesis"
      by (auto simp: lapsed_def pool_simps len)
  next
    case old
    with alloc_fresh_effect(3) [OF _ vr old(3)] show "x = Reused f \<Longrightarrow> ?thesis"
      by (simp add: pool_simps len)
  qed
  show "x = Fresh f ver \<Longrightarrow> fakeOf q r = Some (ToIPKey f) \<and> lapsed now p r \<and> \<not> lapsed now q r"
    using cs
  proof cases
    case free
    with alloc_fresh_effect(2) [OF len vr free(2), of f ver] MappingTTL_pos
    show "x = Fresh f ver \<Longrightarrow> ?thesis" by (simp add: r_def lapsed_def)
  next
    case old
    with alloc_fresh_effect(2) [OF _ vr old(3), of f ver] MappingTTL_pos
    show "x = Fresh f ver \<Longrightarrow> ?thesis" by (simp add: r_def lapsed_def pool_simps len)
  qed simp
  show "x = Exhausted \<Longrightarrow> fakeOf q r = None \<and> lapsed now p r"
    using cs
  proof cases
    case free
    with alloc_fresh_effect(4) [OF len vr free(2)] show "x = Exhausted \<Longrightarrow> ?thesis"
      by (simp add: lapsed_def)
  next
    case old
    with alloc_fresh_effect(4) [OF _ vr old(3)] show "x = Exhausted \<Longrightarrow> ?thesis"
      by (simp add: lapsed_def pool_simps len)
  qed simp
qed

lemma lookup_fast_effect:
  assumes inv: "pool_inv p" and vr: "valid_IP realIP" and res: "lookup_fast now realIP p = Some f"
  shows "fakeOf p (ToIPKey realIP) = Some (ToIPKey f)" "\<not> lapsed now p (ToIPKey realIP)"
proof -
  from res obtain k where k: "fakeOf p (ToIPKey realIP) = Some k" "f = ToIP k"
    and t: "now + 5 * minute < (case expiryOf p (ToIPKey realIP) of Some e \<Rightarrow> e | None \<Rightarrow> zeroTime)"
    by (auto simp: lookup_fast_eq [OF vr] split: option.splits if_splits)
  have "wf_key k" using k(1) pool_inv_bij [OF inv] pool_inv_wf [OF inv] by blast
  with k show "fakeOf p (ToIPKey realIP) = Some (ToIPKey f)" by simp
  have "expiryOf p (ToIPKey realIP) \<noteq> None" using k(1) pool_inv_expiry [OF inv] by simp
  with k(1) t show "\<not> lapsed now p (ToIPKey realIP)"
    by (auto simp: lapsed_def minute_def)
qed

end
