(* ===== verification/PoolBatch.thy ===== *)
theory PoolBatch
  imports PoolAlloc
begin

text \<open>
  The loop of \<^verbatim>\<open>GetFakeIPsForReals\<close> (\<^verbatim>\<open>ippool.go\<close>) over a batch of real addresses.
  \<open>batch_inv\<close> relates the pool before the loop, the pool now, and the two result maps: it is kept by
  every iteration, and gives the postcondition of the successful return and, with the effect of the
  rollback, of the failing one.
\<close>

subsection \<open>The text of an address as a key of the result maps\<close>

lemma To16_To16: "To16 a = Some b \<Longrightarrow> To16 b = Some b"
  using To16_length [of a b] by (simp add: To16_def)

lemma To4_of_To16:
  assumes "To4 a = Some q" "To16 a = Some b"
  shows "To4 b = Some q"
proof -
  have b: "b = v4InV6Prefix @ q" using To4_To16(1) [OF assms(1)] assms(2) by simp
  show ?thesis unfolding b using To4_To16(2) [OF assms(1)] by (simp add: To4_def v4InV6Prefix_def)
qed

lemma IP_String_To16: "To16 a = Some b \<Longrightarrow> IP_String a = IP_String b"
proof (cases "To4 a")
  case None
  assume b: "To16 a = Some b"
  with None have "length a = 16" by (auto simp: To4_def To16_def split: if_splits)
  with b show ?thesis by (simp add: To16_def)
next
  case (Some q)
  assume b: "To16 a = Some b"
  have "valid_IP b" "b \<noteq> []" "valid_IP a" "a \<noteq> []"
    using To16_length [OF b] To4_To16 [OF Some] by auto
  with Some To4_of_To16 [OF Some b] show ?thesis by (auto simp: IP_String_def)
qed

lemma IP_String_eq_iff:
  assumes "valid_IP a" "valid_IP b"
  shows "IP_String a = IP_String b \<longleftrightarrow> ToIPKey a = ToIPKey b"
proof -
  have "To16 a \<noteq> None" "To16 b \<noteq> None"
    using assms by (auto simp: To16_def)
  then obtain a' b' where ab: "To16 a = Some a'" "To16 b = Some b'" by auto
  have "IP_String a = IP_String b \<Longrightarrow> To16 a = To16 b"
    using ParseIP_String [OF assms(1)] ParseIP_String [OF assms(2)] by simp
  moreover have "To16 a = To16 b \<Longrightarrow> IP_String a = IP_String b"
    using IP_String_To16 [OF ab(1)] IP_String_To16 [OF ab(2)] ab by simp
  ultimately show ?thesis using ToIPKey_eq_iff [OF assms] by blast
qed

lemma ToIPKey_ParseIP_String:
  assumes "valid_IP a"
  shows "ToIPKey (slice (ParseIP (IP_String a))) = ToIPKey a" "valid_IP (slice (ParseIP (IP_String a)))"
proof -
  from assms obtain b where b: "To16 a = Some b" by (auto simp: To16_def)
  have vb: "valid_IP b" using To16_length [OF b] by simp
  from To16_To16 [OF b] b have "ToIPKey b = ToIPKey a" using ToIPKey_eq_iff [OF vb assms] by simp
  with b vb show "ToIPKey (slice (ParseIP (IP_String a))) = ToIPKey a"
    "valid_IP (slice (ParseIP (IP_String a)))"
    by (simp_all add: ParseIP_String [OF assms] slice_def)
qed

text \<open>The key of the real address an entry of a result map stands for.\<close>

definition entryKey :: "string \<Rightarrow> IPKey" where
  "entryKey s = ToIPKey (slice (ParseIP s))"

lemma entryKey_String [simp]: "valid_IP a \<Longrightarrow> entryKey (IP_String a) = ToIPKey a"
  by (simp add: entryKey_def ToIPKey_ParseIP_String)

subsection \<open>The invariant of the loop\<close>

text \<open>\<open>served\<close>: every address handled so far has an entry in the result, which is its live mapping.
  \<open>tracked\<close>: the entries of \<^verbatim>\<open>newMappings\<close> are exactly the mappings the pool has now and did not have
  before the loop; what it had and has no longer was over.\<close>

definition served :: "int \<Rightarrow> IP list \<Rightarrow> IPPool \<Rightarrow> result_map \<Rightarrow> bool" where
  "served now ds p res \<longleftrightarrow>
     (\<forall>d\<in>set ds. \<exists>f. map_of res (IP_String d) = Some f \<and>
        fakeOf p (ToIPKey d) = Some (ToIPKey f) \<and> \<not> lapsed now p (ToIPKey d)) \<and>
     fst ` set res = IP_String ` set ds"

definition tracked :: "int \<Rightarrow> IPPool \<Rightarrow> IP list \<Rightarrow> IPPool \<Rightarrow> new_map \<Rightarrow> bool" where
  "tracked now p0 ds p new \<longleftrightarrow>
     distinct (map fst new) \<and>
     (\<forall>(s, info)\<in>set new. s \<in> IP_String ` set ds \<and> fakeOf p (entryKey s) = Some (ToIPKey (mi_IP info)) \<and>
        lapsed now p0 (entryKey s) \<and> \<not> lapsed now p (entryKey s)) \<and>
     (\<forall>r. r \<notin> entryKey ` fst ` set new \<longrightarrow>
        (fakeOf p r = fakeOf p0 r \<or> fakeOf p r = None \<and> lapsed now p0 r) \<and>
        (lapsed now p r \<longrightarrow> lapsed now p0 r)) \<and>
     (\<forall>r. r \<notin> ToIPKey ` set ds \<longrightarrow> fakeOf p r = fakeOf p0 r)"

lemma lapsed_cong: "fakeOf q r = fakeOf p r \<Longrightarrow> expiryOf q r = expiryOf p r \<Longrightarrow> lapsed now q r = lapsed now p r"
  by (simp add: lapsed_def split: option.splits)

lemma served_step:
  assumes srv: "served now ds p res" and val: "\<forall>d\<in>set ds. valid_IP d" and vr: "valid_IP ip"
    and new: "fakeOf q (ToIPKey ip) = Some (ToIPKey f)" "\<not> lapsed now q (ToIPKey ip)"
    and frame: "\<And>r. r \<noteq> ToIPKey ip \<Longrightarrow> fakeOf q r = fakeOf p r \<and> lapsed now q r = lapsed now p r"
  shows "served now (ip # ds) q (AList.update (IP_String ip) f res)"
proof -
  have "\<exists>g. map_of (AList.update (IP_String ip) f res) (IP_String d) = Some g \<and>
        fakeOf q (ToIPKey d) = Some (ToIPKey g) \<and> \<not> lapsed now q (ToIPKey d)"
    if d: "d \<in> set (ip # ds)" for d
  proof (cases "ToIPKey d = ToIPKey ip")
    case True
    have "IP_String d = IP_String ip" using d val vr True IP_String_eq_iff by auto
    with True new show ?thesis by (simp add: update_conv')
  next
    case False
    then have "d \<in> set ds" "IP_String d \<noteq> IP_String ip"
      using d val vr IP_String_eq_iff by auto
    with srv frame [OF False] show ?thesis by (fastforce simp: served_def update_conv')
  qed
  moreover have "fst ` set (AList.update (IP_String ip) f res) = IP_String ` set (ip # ds)"
    using srv by (simp add: served_def dom_update)
  ultimately show ?thesis by (simp only: served_def) blast
qed

lemma tracked_new:
  assumes "tracked now p0 ds p new" "(s, info) \<in> set new"
  shows "s \<in> IP_String ` set ds" "fakeOf p (entryKey s) = Some (ToIPKey (mi_IP info))"
    "lapsed now p0 (entryKey s)" "\<not> lapsed now p (entryKey s)"
  using assms by (auto simp: tracked_def)

lemma tracked_old:
  assumes "tracked now p0 ds p new" "r \<notin> entryKey ` fst ` set new"
  shows "fakeOf p r = fakeOf p0 r \<or> fakeOf p r = None \<and> lapsed now p0 r"
    "lapsed now p r \<Longrightarrow> lapsed now p0 r"
  using assms by (auto simp: tracked_def)

lemma tracked_frame:
  assumes tr: "tracked now p0 ds p new" and r: "ToIPKey ip = r"
    and at: "r \<in> entryKey ` fst ` set new \<Longrightarrow> fakeOf q r = fakeOf p r \<and> \<not> lapsed now q r"
      "r \<notin> entryKey ` fst ` set new \<Longrightarrow>
         (fakeOf q r = fakeOf p0 r \<or> fakeOf q r = None \<and> lapsed now p0 r) \<and> (lapsed now q r \<longrightarrow> lapsed now p0 r)"
    and frame: "\<And>r'. r' \<noteq> r \<Longrightarrow> fakeOf q r' = fakeOf p r' \<and> lapsed now q r' = lapsed now p r'"
  shows "tracked now p0 (ip # ds) q new"
  unfolding tracked_def
proof (intro conjI ballI allI impI, goal_cases)
  case 1
  show ?case using tr by (simp add: tracked_def)
next
  case (2 e)
  obtain s info where e: "e = (s, info)" by fastforce
  note new = tracked_new [OF tr 2 [unfolded e]]
  have "fakeOf q (entryKey s) = fakeOf p (entryKey s) \<and> \<not> lapsed now q (entryKey s)"
  proof (cases "entryKey s = r")
    case True
    with 2 e have "r \<in> entryKey ` fst ` set new" by force
    with at(1) True show ?thesis by simp
  next
    case False
    with frame new(4) show ?thesis by simp
  qed
  with new e show ?case by auto
next
  case (3 r')
  then show ?case using at(2) frame [of r'] tracked_old(1) [OF tr 3] by (cases "r' = r") simp_all
next
  case (4 r')
  then show ?case using at(2) frame [of r'] tracked_old(2) [OF tr 4(1)] by (cases "r' = r") simp_all
next
  case (5 r')
  then have "r' \<noteq> r" "r' \<notin> ToIPKey ` set ds" using r by auto
  with frame tr show ?case by (simp add: tracked_def)
qed

lemma tracked_reuse:
  assumes "tracked now p0 ds p new"
    and "fakeOf q (ToIPKey ip) = fakeOf p (ToIPKey ip)" "\<not> lapsed now q (ToIPKey ip)"
    and frame: "\<And>r. r \<noteq> ToIPKey ip \<Longrightarrow> fakeOf q r = fakeOf p r \<and> lapsed now q r = lapsed now p r"
  shows "tracked now p0 (ip # ds) q new"
  using tracked_frame [OF assms(1) refl _ _ frame] tracked_old [OF assms(1)] assms(2,3) by simp

lemma lapsed_not_new:
  assumes "tracked now p0 ds p new" "lapsed now p r"
  shows "r \<notin> entryKey ` fst ` set new"
  using assms tracked_new(4) by fastforce

lemma tracked_exhausted:
  assumes tr: "tracked now p0 ds p new"
    and ex: "fakeOf q (ToIPKey ip) = None" "lapsed now p (ToIPKey ip)"
    and frame: "\<And>r. r \<noteq> ToIPKey ip \<Longrightarrow> fakeOf q r = fakeOf p r \<and> lapsed now q r = lapsed now p r"
  shows "tracked now p0 (ip # ds) q new"
  using tracked_frame [OF tr refl, of ip q, OF _ _ frame] lapsed_not_new [OF tr ex(2)] tracked_old(2) [OF tr _ ex(2)] ex(1)
  by simp

lemma tracked_fresh:
  assumes tr: "tracked now p0 ds p new" and vr: "valid_IP ip" and val: "\<forall>d\<in>set ds. valid_IP d"
    and fr: "fakeOf q (ToIPKey ip) = Some (ToIPKey (mi_IP info))" "lapsed now p (ToIPKey ip)"
      "\<not> lapsed now q (ToIPKey ip)"
    and frame: "\<And>r. r \<noteq> ToIPKey ip \<Longrightarrow> fakeOf q r = fakeOf p r \<and> lapsed now q r = lapsed now p r"
  shows "tracked now p0 (ip # ds) q (AList.update (IP_String ip) info new)"
proof -
  note notin = lapsed_not_new [OF tr fr(2)]
  have s: "IP_String ip \<notin> fst ` set new"
    using notin vr by (metis entryKey_String imageI)
  then have upd: "AList.update (IP_String ip) info new = new @ [(IP_String ip, info)]"
    by (induction new) auto
  have new: "entryKey s \<noteq> ToIPKey ip" if "(s, i) \<in> set new" for s i
    using notin that by force
  show ?thesis
    unfolding tracked_def upd
  proof (intro conjI ballI allI impI, goal_cases)
    case 1
    show ?case using tr s by (simp add: tracked_def)
  next
    case (2 e)
    then show ?case
      using tracked_new [OF tr] new frame vr fr tracked_old(2) [OF tr notin fr(2)] by auto
  next
    case (3 r)
    then show ?case using frame [of r] tracked_old(1) [OF tr, of r] vr by auto
  next
    case (4 r)
    then show ?case using frame [of r] tracked_old(2) [OF tr, of r] vr by auto
  next
    case (5 r)
    then show ?case using frame [of r] tr by (simp add: tracked_def)
  qed
qed

subsection \<open>The loop\<close>

lemma incExhaustions_frame [simp]:
  "fakeOf (incExhaustions p) = fakeOf p" "expiryOf (incExhaustions p) = expiryOf p"
  "lapsed now (incExhaustions p) = lapsed now p"
  by (simp_all add: fun_eq_iff incExhaustions_def fakeOf_def expiryOf_def lapsed_def split: option.splits)

lemma addAllocations_frame [simp]:
  "fakeOf (addAllocations n p) = fakeOf p" "expiryOf (addAllocations n p) = expiryOf p"
  "lapsed now (addAllocations n p) = lapsed now p"
  by (simp_all add: fun_eq_iff addAllocations_def fakeOf_def expiryOf_def lapsed_def split: option.splits)

lemma allocate_all_inv:
  assumes "pool_inv p" "served now ds p res" "tracked now p0 ds p new"
    and "\<forall>d\<in>set ds. valid_IP d" "\<forall>d\<in>set rs. valid_IP d"
    and "allocate_all v6flag now clk i rs res new p = ((ok, res', new'), p')"
  shows "(\<exists>ds'. set ds' \<subseteq> set rs \<union> set ds \<and> tracked now p0 ds' p' new') \<and>
    (ok \<longrightarrow> served now (rev rs @ ds) p' res' \<and> tracked now p0 (rev rs @ ds) p' new')"
  using assms
proof (induction rs arbitrary: i ds res new p)
  case Nil
  then show ?case by auto
next
  case (Cons ip rs)
  note inv = Cons.prems(1) and vr = Cons.prems(5) [simplified, THEN conjunct1]
  have go: ?case if "pool_inv q" "served now (ip # ds) q res1" "tracked now p0 (ip # ds) q new1"
      "allocate_all v6flag now clk (Suc i) rs res1 new1 q = ((ok, res', new'), p')" for q res1 new1
  proof -
    have "\<forall>d\<in>set (ip # ds). valid_IP d" "\<forall>d\<in>set rs. valid_IP d" using Cons.prems(4,5) by simp_all
    from Cons.IH [OF that(1-3) this that(4)] show ?thesis by auto
  qed
  show ?case
  proof (cases "lookup_fast now ip p")
    case (Some f)
    note eff = lookup_fast_effect [OF inv vr Some]
    show ?thesis
      by (rule go [OF inv served_step [OF Cons.prems(2,4) vr eff] tracked_reuse [OF Cons.prems(3) refl eff(2)]])
        (use Cons.prems(6) Some in simp_all)
  next
    case None
    obtain x q where al: "alloc_locked v6flag now (clk i) ip p = (x, q)" by fastforce
    note eff = alloc_locked_effect [OF inv vr al]
    have invq: "pool_inv q" using alloc_locked_inv [OF inv vr al] .
    have frame: "fakeOf q r = fakeOf p r \<and> lapsed now q r = lapsed now p r" if "r \<noteq> ToIPKey ip" for r
      using eff(1) [OF that] lapsed_cong by metis
    show ?thesis
    proof (cases x)
      case (Reused f)
      from eff(2) [OF Reused] show ?thesis
        by (intro go [OF invq served_step [OF Cons.prems(2,4) vr _ _ frame]
              tracked_reuse [OF Cons.prems(3) _ _ frame]])
          (use Cons.prems(6) None al Reused in simp_all)
    next
      case (Fresh f ver)
      from eff(3) [OF Fresh] show ?thesis
        by (intro go [OF invq served_step [OF Cons.prems(2,4) vr _ _ frame]
              tracked_fresh [OF Cons.prems(3) vr Cons.prems(4) _ _ _ frame]])
          (use Cons.prems(6) None al Fresh in simp_all)
    next
      case Exhausted
      have res: "\<not> ok" "new' = new" "p' = incExhaustions q"
        using Cons.prems(6) None al Exhausted by auto
      have "tracked now p0 (ip # ds) q new"
        using tracked_exhausted [OF Cons.prems(3) _ _ frame] eff(4) [OF Exhausted] by simp
      then have "tracked now p0 (ip # ds) p' new'" by (simp add: res tracked_def)
      with res(1) show ?thesis by (metis Cons.prems(4) Un_iff insert_iff list.set(2) subsetI)
    qed
  qed
qed

lemma allocate_all_moves:
  assumes "pool_inv p" "\<forall>d\<in>set rs. valid_IP d"
  shows "pool_move\<^sup>*\<^sup>* p (snd (allocate_all v6flag now clk i rs res new p))"
  using assms
proof (induction rs arbitrary: i res new p)
  case (Cons ip rs)
  show ?case
  proof (cases "lookup_fast now ip p")
    case None
    obtain x q where al: "alloc_locked v6flag now (clk i) ip p = (x, q)" by fastforce
    have pq: "pool_move\<^sup>*\<^sup>* p q" using alloc_locked_moves [of p ip v6flag now "clk i"] Cons.prems al by simp
    have "pool_inv q" using alloc_locked_inv [OF _ _ al] Cons.prems by simp
    with Cons have go: "pool_move\<^sup>*\<^sup>* p (snd (allocate_all v6flag now clk j rs res1 new1 q))" for j res1 new1
      using pq by (meson list.set_intros(2) rtranclp_trans)
    have "pool_move\<^sup>*\<^sup>* p (incExhaustions q)"
      using pq move_ctr unfolding incExhaustions_def by (rule rtranclp.rtrancl_into_rtrancl)
    with go None al show ?thesis by (cases x) simp_all
  qed (use Cons in simp)
qed simp

lemma allocate_all_frame:
  assumes "pool_inv p" "\<forall>d\<in>set rs. valid_IP d" "r \<notin> ToIPKey ` set rs"
  shows "expiryOf (snd (allocate_all v6flag now clk i rs res new p)) r = expiryOf p r"
  using assms
proof (induction rs arbitrary: i res new p)
  case (Cons ip rs)
  have vr: "valid_IP ip" and r: "r \<noteq> ToIPKey ip" using Cons.prems(2,3) by auto
  show ?case
  proof (cases "lookup_fast now ip p")
    case None
    obtain x q where al: "alloc_locked v6flag now (clk i) ip p = (x, q)" by fastforce
    have q: "pool_inv q" "expiryOf q r = expiryOf p r"
      using alloc_locked_inv [OF Cons.prems(1) vr al] alloc_locked_effect(1) [OF Cons.prems(1) vr al r] by auto
    have "expiryOf (incExhaustions q) r = expiryOf q r" by simp
    with Cons.IH [OF q(1)] Cons.prems(2,3) None al q(2) show ?thesis by (cases x) simp_all
  qed (use Cons in simp)
qed simp

lemma allocate_all_distinct:
  "distinct (map fst res) \<Longrightarrow> allocate_all v6flag now clk i rs res new p = ((ok, res', new'), q) \<Longrightarrow> distinct (map fst res')"
  by (induction v6flag now clk i rs res new p rule: allocate_all.induct)
    (auto simp: distinct_update split: option.splits prod.splits alloc_result.splits)

lemma batch_distinct:
  "GetFakeIPsForReals perm now clk reals v6flag p = (Some (res, new), q) \<Longrightarrow> distinct (map fst res)"
  by (auto simp: GetFakeIPsForReals_def split: if_splits prod.splits bool.splits dest: allocate_all_distinct [rotated])

subsection \<open>The rollback\<close>

lemma rollback_effect:
  assumes "length (shards p) = 64" "distinct (map (entryKey \<circ> fst) L)"
    and "\<forall>(s, info)\<in>set L. valid_IP (slice (ParseIP s)) \<and> fakeOf p (entryKey s) = Some (ToIPKey (mi_IP info))"
  shows "fakeOf (rollback L p) = (\<lambda>r. if r \<in> entryKey ` fst ` set L then None else fakeOf p r)"
  using assms
proof (induction L arbitrary: p)
  case (Cons e L)
  obtain s info where e: "e = (s, info)" by fastforce
  let ?q = "evict (entryKey s) (ToIPKey (mi_IP info)) p"
  have "RemoveMapping (slice (ParseIP s)) (mi_IP info) p = ?q"
    using Cons.prems(3) e by (simp add: RemoveMapping_eq entryKey_def)
  then have step: "rollback (e # L) p = rollback L ?q" by (simp add: rollback_def e)
  have q: "fakeOf ?q = (fakeOf p)(entryKey s := None)" "length (shards ?q) = 64"
    using Cons.prems(1) by (simp_all add: pool_simps)
  have neq: "entryKey s' \<noteq> entryKey s" if "(s', i) \<in> set L" for s' i
    using Cons.prems(2) that e by force
  have "fakeOf (rollback L ?q) = (\<lambda>r. if r \<in> entryKey ` fst ` set L then None else fakeOf ?q r)"
    using Cons.prems(2,3) q neq by (intro Cons.IH) auto
  then show ?case unfolding step q(1) by (auto simp: e fun_eq_iff)
qed (simp add: rollback_def)

lemma rollback_moves:
  assumes "pool_inv p" "\<forall>(s, info)\<in>set L. valid_IP (slice (ParseIP s))"
  shows "pool_move\<^sup>*\<^sup>* p (rollback L p)"
  unfolding rollback_def using assms by (intro fold_moves) (auto intro: RemoveMapping_moves)

lemma tracked_keys:
  assumes tr: "tracked now p0 ds p new" and val: "\<forall>d\<in>set ds. valid_IP d"
  shows "distinct (map (entryKey \<circ> fst) new)" "\<forall>(s, info)\<in>set new. valid_IP (slice (ParseIP s))"
proof -
  have ex: "\<exists>d. valid_IP d \<and> s = IP_String d" if "(s, info) \<in> set new" for s info
    using tracked_new(1) [OF tr that] val by auto
  have "valid_IP (slice (ParseIP s))" if "(s, info) \<in> set new" for s info
  proof -
    from ex [OF that] obtain d where "valid_IP d" "s = IP_String d" by blast
    with ToIPKey_ParseIP_String(2) show ?thesis by simp
  qed
  then show "\<forall>(s, info)\<in>set new. valid_IP (slice (ParseIP s))" by fastforce
  have "inj_on entryKey (fst ` set new)"
  proof (rule inj_onI)
    fix a b assume "a \<in> fst ` set new" "b \<in> fst ` set new" and eq: "entryKey a = entryKey b"
    then obtain i j where "(a, i) \<in> set new" "(b, j) \<in> set new" by auto
    with ex obtain x y where "valid_IP x" "a = IP_String x" "valid_IP y" "b = IP_String y" by meson
    with eq show "a = b" by (simp add: IP_String_eq_iff)
  qed
  then show "distinct (map (entryKey \<circ> fst) new)"
    using tr by (simp add: tracked_def distinct_map comp_inj_on)
qed

lemma rollback_tracked:
  assumes tr: "tracked now p0 ds p new" and val: "\<forall>d\<in>set ds. valid_IP d" and inv: "pool_inv q"
    and perm: "\<And>m. mset (perm m) = mset m" and same: "\<And>r. r \<in> entryKey ` fst ` set new \<Longrightarrow> fakeOf q r = fakeOf p r"
  shows "fakeOf (rollback (perm new) q) = (\<lambda>r. if r \<in> entryKey ` fst ` set new then None else fakeOf q r)"
proof -
  note keys = tracked_keys [OF tr val]
  have sets: "set (perm new) = set new" by (rule mset_eq_setD [OF perm])
  have "mset (map (entryKey \<circ> fst) (perm new)) = mset (map (entryKey \<circ> fst) new)" by (simp add: perm)
  then have dist: "distinct (map (entryKey \<circ> fst) (perm new))"
    using keys(1) mset_eq_imp_distinct_iff by blast
  have "\<forall>(s, info)\<in>set (perm new). valid_IP (slice (ParseIP s)) \<and> fakeOf q (entryKey s) = Some (ToIPKey (mi_IP info))"
    unfolding sets using keys(2) tracked_new(2) [OF tr] same by fastforce
  from rollback_effect [OF pool_inv_length [OF inv] dist this] show ?thesis by (simp only: sets)
qed

subsection \<open>The two outcomes of a batch\<close>

lemma set_sortReals [simp]: "set (sortReals reals) = set reals"
  by (simp add: sortReals_def)

lemma served_set_cong: "set a = set b \<Longrightarrow> served now a p res = served now b p res"
  by (simp add: served_def)

lemma tracked_set_cong: "set a = set b \<Longrightarrow> tracked now p0 a p new = tracked now p0 b p new"
  by (simp add: tracked_def)

lemma loop_start [simp]: "served now [] p []" "tracked now p [] p []"
  by (simp_all add: served_def tracked_def)

lemma GetFakeIPsForReals_moves:
  assumes inv: "pool_inv p" and val: "\<forall>d\<in>set reals. valid_IP d" and perm: "\<And>m. mset (perm m) = mset m"
  shows "pool_move\<^sup>*\<^sup>* p (snd (GetFakeIPsForReals perm now clk reals v6flag p))"
proof (cases "reals = []")
  case False
  obtain ok res new q where al: "allocate_all v6flag now clk 0 (sortReals reals) [] [] p = ((ok, res, new), q)"
    by (metis prod.exhaust)
  have val': "\<forall>d\<in>set (sortReals reals). valid_IP d" using val by simp
  have pq: "pool_move\<^sup>*\<^sup>* p q" using allocate_all_moves [OF inv val'] al by (metis snd_conv)
  have invq: "pool_inv q" using pool_moves.run_inv [OF pq inv] .
  obtain ds where ds: "set ds \<subseteq> set reals" "tracked now p ds q new"
    using allocate_all_inv [OF inv loop_start _ val' al] by auto
  have "\<forall>d\<in>set ds. valid_IP d" using ds(1) val by auto
  from tracked_keys(2) [OF ds(2) this] have "\<forall>(s, info)\<in>set (perm new). valid_IP (slice (ParseIP s))"
    using mset_eq_setD [OF perm [of new]] by simp
  with rollback_moves [OF invq] have "pool_move\<^sup>*\<^sup>* q (rollback (perm new) q)" by blast
  moreover have "pool_move\<^sup>*\<^sup>* q (addAllocations n q)" for n
    unfolding addAllocations_def using move_ctr by blast
  ultimately show ?thesis using pq False al
    by (cases ok) (auto simp: GetFakeIPsForReals_def intro: rtranclp_trans)
qed (simp add: GetFakeIPsForReals_def)

lemma batch_success:
  assumes inv: "pool_inv p" and val: "\<forall>d\<in>set reals. valid_IP d"
    and res: "GetFakeIPsForReals perm now clk reals v6flag p = (Some (res, new), q)"
  shows "served now reals q res" "tracked now p reals q new" "pool_inv q"
    "r \<notin> ToIPKey ` set reals \<Longrightarrow> expiryOf q r = expiryOf p r"
proof -
  have val': "\<forall>d\<in>set (sortReals reals). valid_IP d" using val by simp
  from res obtain q0 where q: "q = addAllocations (length res) q0"
    and al: "allocate_all v6flag now clk 0 (sortReals reals) [] [] p = ((True, res, new), q0)"
    by (auto simp: GetFakeIPsForReals_def split: if_splits prod.splits bool.splits)
  have "pool_inv q0" using pool_moves.run_inv [OF allocate_all_moves [OF inv val'] inv] al by (metis snd_conv)
  then show "pool_inv q" by (rule pool_inv_frame) (simp_all add: q addAllocations_def)
  show "r \<notin> ToIPKey ` set reals \<Longrightarrow> expiryOf q r = expiryOf p r"
    using allocate_all_frame [OF inv val', of r v6flag now clk 0 "[]" "[]"] al by (simp add: q)
  have "served now (rev (sortReals reals)) q0 res" "tracked now p (rev (sortReals reals)) q0 new"
    using allocate_all_inv [OF inv loop_start _ val' al] by auto
  then show "served now reals q res" "tracked now p reals q new"
    using served_set_cong [of "rev (sortReals reals)" reals] tracked_set_cong [of "rev (sortReals reals)" reals]
    by (simp_all add: q served_def tracked_def)
qed

lemma batch_failure:
  assumes inv: "pool_inv p" and val: "\<forall>d\<in>set reals. valid_IP d" and perm: "\<And>m. mset (perm m) = mset m"
    and res: "GetFakeIPsForReals perm now clk reals v6flag p = (None, q)"
  shows "fakeOf q r = fakeOf p r \<or> fakeOf q r = None \<and> lapsed now p r"
    "r \<notin> ToIPKey ` set reals \<Longrightarrow> fakeOf q r = fakeOf p r" "pool_inv q"
proof -
  show "pool_inv q" using pool_moves.run_inv [OF GetFakeIPsForReals_moves [OF inv val perm] inv] res by (metis snd_conv)
  have "(fakeOf q r = fakeOf p r \<or> fakeOf q r = None \<and> lapsed now p r) \<and>
    (r \<notin> ToIPKey ` set reals \<longrightarrow> fakeOf q r = fakeOf p r)"
  proof (cases "reals = []")
    case True
    with res show ?thesis by (simp add: GetFakeIPsForReals_def)
  next
    case False
    have val': "\<forall>d\<in>set (sortReals reals). valid_IP d" using val by simp
    from res False obtain rm new q0 where q: "q = rollback (perm new) q0"
      and al: "allocate_all v6flag now clk 0 (sortReals reals) [] [] p = ((False, rm, new), q0)"
      by (auto simp: GetFakeIPsForReals_def split: prod.splits bool.splits)
    obtain ds where ds: "set ds \<subseteq> set reals" "tracked now p ds q0 new"
      using allocate_all_inv [OF inv loop_start _ val' al] by auto
    have vds: "\<forall>d\<in>set ds. valid_IP d" using ds(1) val by auto
    have invq: "pool_inv q0"
      using pool_moves.run_inv [OF allocate_all_moves [OF inv val'] inv] al by (metis snd_conv)
    have eff: "fakeOf q r = (if r \<in> entryKey ` fst ` set new then None else fakeOf q0 r)"
      unfolding q by (subst rollback_tracked [OF ds(2) vds invq perm]) simp_all
    have "entryKey ` fst ` set new \<subseteq> ToIPKey ` set reals" using tracked_new(1) [OF ds(2)] vds ds(1) by fastforce
    moreover have "r \<notin> ToIPKey ` set reals \<Longrightarrow> fakeOf q0 r = fakeOf p r"
      using ds by (meson image_mono subsetD tracked_def)
    ultimately show ?thesis using eff ds(1) tracked_new(3) [OF ds(2)] tracked_old(1) [OF ds(2), of r]
      by (cases "r \<in> entryKey ` fst ` set new") auto
  qed
  then show "fakeOf q r = fakeOf p r \<or> fakeOf q r = None \<and> lapsed now p r"
    "r \<notin> ToIPKey ` set reals \<Longrightarrow> fakeOf q r = fakeOf p r" by blast+
qed

text \<open>C1: a successful batch returns exactly one fake address for every requested real address. The pool
  maps the real address to it and back, and the mapping is live. Every mapping that was live before the
  call is unchanged, whether it was requested or not, and the reported new mappings are those of
  addresses that had no live mapping.\<close>

theorem GetFakeIPsForReals_success:
  assumes inv: "pool_inv p" and val: "\<forall>d\<in>set reals. valid_IP d"
    and res: "GetFakeIPsForReals perm now clk reals v6flag p = (Some (res, new), q)"
  shows "fst ` set res = IP_String ` set reals \<and>
    (\<forall>d\<in>set reals. \<exists>f. map_of res (IP_String d) = Some f \<and> fakeOf q (ToIPKey d) = Some (ToIPKey f) \<and>
       globalFakeToReal q (ToIPKey f) = Some (ToIPKey d) \<and> \<not> lapsed now q (ToIPKey d)) \<and>
    (\<forall>r. \<not> lapsed now p r \<longrightarrow> fakeOf q r = fakeOf p r) \<and>
    (\<forall>(s, info)\<in>set new. lapsed now p (entryKey s) \<and> fakeOf q (entryKey s) = Some (ToIPKey (mi_IP info)))"
proof -
  note b = batch_success [OF inv val res]
  have "fakeOf q r = fakeOf p r" if "\<not> lapsed now p r" for r
  proof -
    have "r \<notin> entryKey ` fst ` set new" using tracked_new(3) [OF b(2)] that by auto
    with tracked_old(1) [OF b(2)] that show ?thesis by blast
  qed
  moreover have "\<forall>(s, info)\<in>set new. lapsed now p (entryKey s) \<and> fakeOf q (entryKey s) = Some (ToIPKey (mi_IP info))"
    using tracked_new(2,3) [OF b(2)] by fast
  ultimately show ?thesis using b(1) by (auto simp: served_def pool_inv_bij [OF b(3), symmetric])
qed

lemma alloc_fresh_natural:
  assumes "valid_IP ip" "globalFakeToReal p = Map.empty"
  shows "alloc_fresh v6flag now clk ip p =
    (Fresh (ComputeLevel1Hash ip v6flag p) (fst (GetNextVersion clk p)),
     (bind_pair (ToIPKey ip) (ToIPKey (ComputeLevel1Hash ip v6flag p)) (fst (GetNextVersion clk p))
        (now + MappingTTL) p)\<lparr>hlc := fst (GetNextVersion clk p)\<rparr>)"
  using assms by (simp add: alloc_fresh_eq chooseFake_def)

lemma GetFakeIPsForReals_single:
  assumes "valid_IP ip" and p: "p = NewIPPoolWithConfig b4 b6 cfg"
  shows "\<exists>res new q. GetFakeIPsForReals perm now clk [ip] v6flag p = (Some (res, new), q)"
proof -
  have "lookup_fast now ip p = None" using assms by (simp add: lookup_fast_eq)
  moreover have "alloc_locked v6flag now (clk 0) ip p = alloc_fresh v6flag now (clk 0) ip p"
    using assms alloc_locked_eq [OF pool_inv_New] by simp
  ultimately show ?thesis using assms
    by (simp add: GetFakeIPsForReals_def sortReals_def alloc_fresh_natural)
qed

theorem GetFakeIPsForReals_success_witness:
  "\<exists>res new q f. GetFakeIPsForReals id 0 (\<lambda>_. 7) [[1, 1, 1, 1]] False (NewIPPool [] []) = (Some (res, new), q) \<and>
     map_of res (IP_String [1, 1, 1, 1]) = Some f \<and>
     globalFakeToReal q (ToIPKey f) = Some (ToIPKey [1, 1, 1, 1])"
proof -
  let ?p = "NewIPPool [] []"
  obtain res new q where res: "GetFakeIPsForReals id 0 (\<lambda>_. 7) [[1, 1, 1, 1]] False ?p = (Some (res, new), q)"
    using GetFakeIPsForReals_single [OF _ NewIPPool_def, of "[1, 1, 1, 1]"] by fastforce
  have "pool_inv ?p" by (simp add: NewIPPool_def pool_inv_New)
  from GetFakeIPsForReals_success [OF this _ res] res show ?thesis by auto
qed

text \<open>C2: a failed batch creates nothing. Whatever order the runtime visits the new mappings in, after the
  rollback every real address has the fake address it had before, or none, and then it had no live mapping
  before the call. In particular no mapping of the batch survives, and no live mapping is lost.\<close>

theorem GetFakeIPsForReals_failure:
  assumes inv: "pool_inv p" and val: "\<forall>d\<in>set reals. valid_IP d" and perm: "\<And>m. mset (perm m) = mset m"
    and res: "GetFakeIPsForReals perm now clk reals v6flag p = (None, q)"
  shows "fakeOf q r = fakeOf p r \<or> fakeOf q r = None \<and> lapsed now p r"
  using batch_failure(1) [OF inv val perm res] .

text \<open>A pool with one IPv6 slot: the second address of a batch does not fit, and the first is rolled back.\<close>

definition tinyPool :: IPPool where
  "tinyPool = NewIPPoolWithConfig [] [] \<lparr>PoolSizeV4 = 0, PoolSizeV6 = 1\<rparr>"

lemma chooseFake6_single:
  assumes "poolSize6 p = 1"
  shows "chooseFake ip True p = (let f = ComputeLevel1Hash [] True p
    in if globalFakeToReal p (ToIPKey f) = None then Some f else None)"
proof -
  have one: "x mod 1 = 0" for x :: u32 by (metis mod_by_1)
  have "maxAttempts 1 = 1" by (simp add: maxAttempts_def)
  then show ?thesis using assms by (simp add: chooseFake_def ComputeLevel1Hash_def one Let_def)
qed

lemma tinyPool_exhausted:
  "\<exists>q. GetFakeIPsForReals id 0 (\<lambda>_. 7) [replicate 16 2, replicate 16 1] True tinyPool = (None, q)"
proof -
  let ?a = "replicate 16 (1 :: byte)" and ?b = "replicate 16 (2 :: byte)"
  let ?s = "ComputeLevel1Hash [] True tinyPool"
  let ?q = "(bind_pair (ToIPKey ?a) (ToIPKey ?s) 7 MappingTTL tinyPool)\<lparr>hlc := 7\<rparr>"
  have sz: "poolSize6 tinyPool = 1" by (simp add: tinyPool_def NewIPPoolWithConfig_def Let_def)
  have inv: "pool_inv tinyPool" by (simp add: tinyPool_def pool_inv_New)
  note len = pool_inv_length [OF inv]
  have emp: "globalFakeToReal tinyPool = Map.empty" "fakeOf tinyPool = Map.empty"
    by (simp_all add: tinyPool_def)
  have sort: "sortReals [?b, ?a] = [?a, ?b]" by (simp add: sortReals_def To16_def slice_def numeral_eq_Suc)
  have neq: "ToIPKey ?b \<noteq> ToIPKey ?a" by (simp add: ToIPKey_eq_iff To16_def)
  have clk: "fst (GetNextVersion 7 tinyPool) = 7"
    by (simp add: GetNextVersion_def tinyPool_def NewIPPoolWithConfig_def Let_def)
  have look: "lookup_fast 0 ?a tinyPool = None" by (simp add: lookup_fast_eq emp)
  have "alloc_locked True 0 7 ?a tinyPool = alloc_fresh True 0 7 ?a tinyPool"
    by (simp add: alloc_locked_eq [OF inv] emp)
  then have al: "alloc_locked True 0 7 ?a tinyPool = (Fresh ?s 7, ?q)"
    by (simp add: alloc_fresh_eq chooseFake6_single [OF sz] clk emp)
  have q: "fakeOf ?q (ToIPKey ?b) = None" "globalFakeToReal ?q (ToIPKey ?s) \<noteq> None"
    using neq len by (simp_all add: emp pool_simps)
  have same: "poolSize6 ?q = 1" "ComputeLevel1Hash [] True ?q = ?s"
    using sz by (simp_all add: prim_defs ComputeLevel1Hash_def)
  have invq: "pool_inv ?q" using alloc_locked_inv [OF inv _ al] by simp
  have "chooseFake ?b True ?q = None" using q same by (simp add: chooseFake6_single Let_def)
  then have "alloc_locked True 0 7 ?b ?q = (Exhausted, ?q)" "lookup_fast 0 ?b ?q = None"
    using q(1) by (simp_all add: alloc_locked_eq [OF invq] alloc_fresh_eq lookup_fast_eq)
  then show ?thesis using al look by (simp add: GetFakeIPsForReals_def sort)
qed

theorem GetFakeIPsForReals_failure_witness:
  "\<exists>q. GetFakeIPsForReals id 0 (\<lambda>_. 7) [replicate 16 2, replicate 16 1] True tinyPool = (None, q) \<and>
     fakeOf q (ToIPKey (replicate 16 1)) = None"
proof -
  obtain q where q: "GetFakeIPsForReals id 0 (\<lambda>_. 7) [replicate 16 2, replicate 16 1] True tinyPool = (None, q)"
    using tinyPool_exhausted by blast
  have "pool_inv tinyPool" by (simp add: tinyPool_def pool_inv_New)
  from GetFakeIPsForReals_failure [OF this _ _ q, of "ToIPKey (replicate 16 1)"]
  have "fakeOf q (ToIPKey (replicate 16 1)) = None" by (auto simp: tinyPool_def)
  with q show ?thesis by blast
qed

end
