(* ===== verification/PoolSpec.thy ===== *)
theory PoolSpec
  imports PoolAlloc
begin

text \<open>
  What the pool promises, without shards, without the inverse map and without byte encodings: a
  table of leases from real addresses to a fake address, a version and an expiry time. The
  operations of the pool refine operations on this table.
\<close>

subsection \<open>The table of leases\<close>

record lease =
  ls_fake :: IPKey
  ls_ver :: u64
  ls_expires :: int

type_synonym leases = "IPKey \<rightharpoonup> lease"

definition leases_of :: "IPPool \<Rightarrow> leases" where
  "leases_of p r = map_option (\<lambda>f. \<lparr>ls_fake = f, ls_ver = the (globalVersions p f),
     ls_expires = the (expiryOf p r)\<rparr>) (fakeOf p r)"

text \<open>An update \<open>(v, k)\<close> loses against \<open>(w, k')\<close>: smaller versions lose, then smaller or equal addresses.\<close>

definition loses :: "u64 \<Rightarrow> IPKey \<Rightarrow> u64 \<Rightarrow> IPKey \<Rightarrow> bool" where
  "loses v k w k' \<longleftrightarrow> v < w \<or> v = w \<and> ToIP k \<le> ToIP k'"

definition spec_blocked :: "leases \<Rightarrow> IPKey \<Rightarrow> IPKey \<Rightarrow> u64 \<Rightarrow> bool" where
  "spec_blocked L r f v \<longleftrightarrow>
     (\<exists>r' l. L r' = Some l \<and> ls_fake l = f \<and> loses v r (ls_ver l) r') \<or>
     (\<exists>l. L r = Some l \<and> ls_fake l \<noteq> f \<and> loses v f (ls_ver l) (ls_fake l))"

definition spec_release :: "IPKey \<Rightarrow> leases \<Rightarrow> leases" where
  "spec_release f L r = (case L r of Some l \<Rightarrow> if ls_fake l = f then None else Some l | None \<Rightarrow> None)"

definition spec_add :: "IPKey \<Rightarrow> IPKey \<Rightarrow> u64 \<Rightarrow> int \<Rightarrow> leases \<Rightarrow> bool \<times> leases" where
  "spec_add r f v e L =
     (if spec_blocked L r f v then (False, L)
      else (True, (spec_release f L)(r \<mapsto> \<lparr>ls_fake = f, ls_ver = v, ls_expires = e\<rparr>)))"

definition spec_remove :: "IPKey \<Rightarrow> IPKey \<Rightarrow> leases \<Rightarrow> leases" where
  "spec_remove r f L = (if map_option ls_fake (L r) = Some f then L(r := None) else L)"

definition spec_expire :: "int \<Rightarrow> leases \<Rightarrow> leases" where
  "spec_expire now L r = (case L r of Some l \<Rightarrow> if ls_expires l < now then None else Some l | None \<Rightarrow> None)"

definition taken :: "leases \<Rightarrow> IPKey set" where
  "taken L = {ls_fake l | r l. L r = Some l}"

subsection \<open>The moves on the table\<close>

lemma leases_evict [pool_simps]:
  assumes "pool_inv p" "fakeOf p r = Some f"
  shows "leases_of (evict r f p) = (leases_of p)(r := None)"
proof
  fix x
  have "fakeOf p x = Some f \<Longrightarrow> x = r" using assms pool_inv_bij by (metis option.inject)
  then show "leases_of (evict r f p) x = ((leases_of p)(r := None)) x"
    using pool_inv_length [OF assms(1)] by (cases "fakeOf p x") (auto simp: leases_of_def pool_simps)
qed

lemma leases_bind [pool_simps]:
  assumes "pool_inv p" "globalFakeToReal p f = None"
  shows "leases_of (bind_pair r f v e p) = (leases_of p)(r \<mapsto> \<lparr>ls_fake = f, ls_ver = v, ls_expires = e\<rparr>)"
proof
  fix x
  have "fakeOf p x \<noteq> Some f" using assms pool_inv_bij by (metis option.distinct(1))
  then show "leases_of (bind_pair r f v e p) x = ((leases_of p)(r \<mapsto> \<lparr>ls_fake = f, ls_ver = v, ls_expires = e\<rparr>)) x"
    using pool_inv_length [OF assms(1)] by (cases "fakeOf p x") (auto simp: leases_of_def pool_simps)
qed

lemma leases_touch [pool_simps]:
  assumes "length (shards p) = 64"
  shows "leases_of (touch r e p) = (leases_of p)(r := map_option (\<lambda>l. l\<lparr>ls_expires := e\<rparr>) (leases_of p r))"
  using assms by (auto simp: fun_eq_iff leases_of_def pool_simps option.map_comp comp_def)

lemma leases_frame [pool_simps, simp]:
  "leases_of (p\<lparr>ctr := c\<rparr>) = leases_of p" "leases_of (p\<lparr>hlc := h\<rparr>) = leases_of p"
  by (simp_all add: fun_eq_iff leases_of_def fakeOf_def expiryOf_def)

lemma leases_of_New [simp]: "leases_of (NewIPPoolWithConfig b4 b6 cfg) = Map.empty"
  by (simp add: fun_eq_iff leases_of_def)

lemma leases_of_fake [simp]: "map_option ls_fake (leases_of p r) = fakeOf p r"
  by (cases "fakeOf p r") (simp_all add: leases_of_def)

lemma leases_of_None: "leases_of p r = None \<longleftrightarrow> fakeOf p r = None"
  by (simp add: leases_of_def)

lemma taken_leases:
  assumes "pool_inv p"
  shows "f \<in> taken (leases_of p) \<longleftrightarrow> globalFakeToReal p f \<noteq> None"
proof -
  have "f \<in> taken (leases_of p) \<longleftrightarrow> (\<exists>r. map_option ls_fake (leases_of p r) = Some f)"
    by (auto simp: taken_def simp del: leases_of_fake)
  then show ?thesis using pool_inv_bij [OF assms, of _ f] by auto
qed

lemma spec_release_alt: "spec_release f L r = (if map_option ls_fake (L r) = Some f then None else L r)"
  by (cases "L r") (simp_all add: spec_release_def)

lemma leases_of_Some:
  "leases_of p r = Some l \<longleftrightarrow> (\<exists>f. fakeOf p r = Some f \<and>
     l = \<lparr>ls_fake = f, ls_ver = the (globalVersions p f), ls_expires = the (expiryOf p r)\<rparr>)"
  by (auto simp: leases_of_def)

lemma spec_blocked_leases:
  "spec_blocked (leases_of p) r f v \<longleftrightarrow>
     (\<exists>r'. fakeOf p r' = Some f \<and> loses v r (the (globalVersions p f)) r') \<or>
     (\<exists>ef. fakeOf p r = Some ef \<and> ef \<noteq> f \<and> loses v f (the (globalVersions p ef)) ef)"
  unfolding spec_blocked_def leases_of_Some by (rule arg_cong2 [where f = "(\<or>)"]) force+

lemma spec_release_leases:
  assumes "pool_inv p"
  shows "spec_release f (leases_of p) = leases_of (evictFake f p)"
proof -
  have "spec_release f (leases_of p) r = (if fakeOf p r = Some f then None else leases_of p r)" for r
    by (simp add: spec_release_alt)
  then show ?thesis using leases_evict [OF assms, of _ f] pool_inv_bij [OF assms, of _ f]
    by (auto simp: fun_eq_iff evictFake_def split: option.splits)
qed

subsection \<open>Refinement of the operations\<close>

lemma staleFor_loses:
  "wf_key k \<Longrightarrow> wf_key k' \<Longrightarrow> staleFor v k (Some w) k' \<longleftrightarrow> loses v k w k'"
  by (simp add: staleFor_def loses_def To16_def slice_def bytes_Compare_le_iff)

lemma addBlocked_spec:
  assumes inv: "pool_inv p" and wf: "wf_key r" "wf_key f"
  shows "addBlocked p r f v \<longleftrightarrow> spec_blocked (leases_of p) r f v"
proof -
  have st: "staleFor v k (globalVersions p g) k' \<longleftrightarrow> loses v k (the (globalVersions p g)) k'"
    if "globalFakeToReal p g \<noteq> None" "wf_key k" "wf_key k'" for g k k'
    using that staleFor_loses pool_inv_versions [OF inv, of g] by (cases "globalVersions p g") auto
  have "(\<exists>er. globalFakeToReal p f = Some er \<and> staleFor v r (globalVersions p f) er) \<longleftrightarrow>
      (\<exists>r'. fakeOf p r' = Some f \<and> loses v r (the (globalVersions p f)) r')"
    using st [of f r] pool_inv_wf [OF inv, of f] pool_inv_bij [OF inv, of _ f] wf by auto
  moreover have "(\<exists>ef. fakeOf p r = Some ef \<and> ef \<noteq> f \<and> staleFor v f (globalVersions p ef) ef) \<longleftrightarrow>
      (\<exists>ef. fakeOf p r = Some ef \<and> ef \<noteq> f \<and> loses v f (the (globalVersions p ef)) ef)"
  proof -
    have "staleFor v f (globalVersions p ef) ef \<longleftrightarrow> loses v f (the (globalVersions p ef)) ef" if "fakeOf p r = Some ef" for ef
      using that pool_inv_bij [OF inv, of r ef] pool_inv_wf [OF inv, of ef r] by (intro st wf) auto
    then show ?thesis by blast
  qed
  ultimately show ?thesis by (simp only: addBlocked_def spec_blocked_leases)
qed

lemma leases_unlease:
  "fakeOf p r = None \<Longrightarrow> (leases_of p)(r := None) = leases_of p"
  by (simp add: fun_upd_idem_iff leases_of_None)

lemma leases_evictReal:
  "pool_inv p \<Longrightarrow> leases_of (evictReal r p) = (leases_of p)(r := None)"
  by (cases "fakeOf p r") (simp_all add: evictReal_def leases_evict leases_unlease)

lemma AddMapping_leases:
  assumes inv: "pool_inv p" and vr: "valid_IP realIP"
  shows "map_prod id leases_of (AddMapping realIP fakeIP ver e p) =
    spec_add (ToIPKey realIP) (ToIPKey fakeIP) ver e (leases_of p)"
proof -
  let ?r = "ToIPKey realIP" and ?f = "ToIPKey fakeIP"
  let ?q = "evictReal ?r (evictFake ?f p)"
  have inv1: "pool_inv (evictFake ?f p)" using pool_moves.run_inv [OF evictFake_moves [OF inv] inv] .
  have inv2: "pool_inv ?q" using pool_moves.run_inv [OF evictReal_moves inv1] .
  have free: "globalFakeToReal ?q ?f = None"
    by (rule evictReal_free(2) [OF pool_inv_length [OF inv1] evictFake_free])
  have "leases_of (bind_pair ?r ?f ver e ?q) =
      (spec_release ?f (leases_of p))(?r \<mapsto> \<lparr>ls_fake = ?f, ls_ver = ver, ls_expires = e\<rparr>)"
    using leases_bind [OF inv2 free] by (simp add: leases_evictReal [OF inv1] spec_release_leases [OF inv])
  with AddMapping_cases [OF inv vr, of fakeIP ver e] show ?thesis
    by (auto simp: spec_add_def addBlocked_spec [OF inv])
qed

text \<open>C5: adding a mapping does to the leases what the specification says: it is refused exactly when it
  loses against the lease of its fake address or of its real address; otherwise the former owner of the
  fake address and the former fake address of the owner are released, and the new lease is entered.\<close>

theorem AddMapping_refines:
  assumes "pool_inv p" "valid_IP realIP"
  shows "map_prod id leases_of (AddMapping realIP fakeIP ver e p) =
    spec_add (ToIPKey realIP) (ToIPKey fakeIP) ver e (leases_of p)"
  using assms by (rule AddMapping_leases)

theorem AddMapping_refines_witness:
  "map_prod id leases_of (AddMapping [1, 1, 1, 1] [198, 18, 0, 9] 5 100 (NewIPPool [] [])) =
     (True, [ToIPKey [1, 1, 1, 1] \<mapsto> \<lparr>ls_fake = ToIPKey [198, 18, 0, 9], ls_ver = 5, ls_expires = 100\<rparr>])"
  using AddMapping_refines [of "NewIPPool [] []" "[1, 1, 1, 1]" "[198, 18, 0, 9]" 5 100]
  by (simp add: NewIPPool_def pool_inv_New spec_add_def spec_blocked_def spec_release_def fun_eq_iff)

lemma RemoveMapping_refines:
  assumes "pool_inv p" "valid_IP realIP"
  shows "leases_of (RemoveMapping realIP fakeIP p) =
    spec_remove (ToIPKey realIP) (ToIPKey fakeIP) (leases_of p)"
  using assms by (simp add: RemoveMapping_eq spec_remove_def leases_evict)

subsection \<open>Pruning\<close>

definition over :: "int \<Rightarrow> IPPool \<Rightarrow> IPKey \<Rightarrow> bool" where
  "over now p r \<longleftrightarrow> (\<exists>l. leases_of p r = Some l \<and> ls_expires l < now)"

lemma spec_expire_over: "spec_expire now (leases_of p) r = (if over now p r then None else leases_of p r)"
  by (auto simp: spec_expire_def over_def split: option.splits)

lemma over_leases: "leases_of q r = leases_of p r \<Longrightarrow> over now q r = over now p r"
  by (simp add: over_def)

lemma over_alt: "over now p r \<longleftrightarrow> fakeOf p r \<noteq> None \<and> the (expiryOf p r) < now"
  by (auto simp: over_def leases_of_Some)

lemma prune_step:
  assumes inv: "pool_inv p" and i: "i < 64"
  shows "(case expiries (shards p ! i) r of None \<Rightarrow> p
     | Some e \<Rightarrow> if e < now \<and> realToFake (shards p ! i) r = Some f then delGlobal f (delReal i r p) else p) =
    (if keyShard r = i \<and> over now p r \<and> fakeOf p r = Some f then evict r f p else p)"
proof (cases "keyShard r = i")
  case True
  then have "expiries (shards p ! i) r = expiryOf p r" "realToFake (shards p ! i) r = fakeOf p r"
    by (simp_all add: expiryOf_def fakeOf_def)
  moreover have "expiryOf p r = None \<longleftrightarrow> fakeOf p r = None" by (rule pool_inv_expiry [OF inv])
  ultimately show ?thesis using True by (auto simp: over_alt evict_def split: option.splits)
next
  case False
  then have "realToFake (shards p ! i) r \<noteq> Some f" using pool_inv_shard [OF inv i] by metis
  with False show ?thesis by (auto split: option.splits)
qed

lemma prune_delete_leases:
  assumes "pool_inv p" "i < 64"
  shows "leases_of (prune_delete now i ps p) =
    (\<lambda>r. if keyShard r = i \<and> over now p r \<and> (r, the (fakeOf p r)) \<in> set ps then None else leases_of p r)"
  using assms
proof (induction ps arbitrary: p)
  case (Cons rf ps)
  obtain r f where rf: "rf = (r, f)" by fastforce
  let ?c = "keyShard r = i \<and> over now p r \<and> fakeOf p r = Some f"
  have step: "prune_delete now i (rf # ps) p = prune_delete now i ps (if ?c then evict r f p else p)"
    by (simp add: rf prune_step [OF Cons.prems])
  show ?case
  proof (cases ?c)
    case True
    then have L: "leases_of (evict r f p) = (leases_of p)(r := None)" by (simp add: leases_evict Cons.prems)
    have "fakeOf (evict r f p) = (fakeOf p)(r := None)"
      using pool_inv_length [OF Cons.prems(1)] by (simp add: pool_simps)
    moreover have "pool_inv (evict r f p)" using True Cons.prems(1) by (auto intro: pool_intros)
    moreover have "prune_delete now i (rf # ps) p = prune_delete now i ps (evict r f p)"
      using step True by presburger
    ultimately show ?thesis using True Cons.prems(2) L
      by (auto simp: Cons.IH rf fun_eq_iff over_def simp del: prune_delete.simps)
  next
    case False
    then have "prune_delete now i (rf # ps) p = prune_delete now i ps p" using step by presburger
    with False show ?thesis
      by (auto simp: Cons.IH [OF Cons.prems] rf fun_eq_iff over_alt simp del: prune_delete.simps)
  qed
qed simp

lemma prune_shard_leases:
  assumes inv: "pool_inv p" and i: "i < 64" and cov: "\<And>r. fakeOf p r \<noteq> None \<Longrightarrow> keyShard r = i \<Longrightarrow> r \<in> set (visit i)"
  shows "leases_of (prune_shard now visit i p) r =
    (if keyShard r = i then spec_expire now (leases_of p) r else leases_of p r)"
proof -
  have "(r, the (fakeOf p r)) \<in> set (prune_collect now (visit i) (shards p ! i))"
    if "keyShard r = i" "over now p r"
  proof -
    from that obtain f e where rf: "fakeOf p r = Some f" "expiryOf p r = Some e" "e < now"
      using pool_inv_expiry [OF inv, of r] by (auto simp: over_alt)
    then have "r \<in> set (visit i)" using cov that(1) by simp
    with rf that(1) show ?thesis
      by (auto simp: prune_collect_def fakeOf_def expiryOf_def intro!: bexI [of _ r])
  qed
  then show ?thesis
    by (auto simp: prune_shard_def prune_delete_leases [OF inv i] spec_expire_over)
qed

lemma prune_shards_leases:
  assumes inv: "pool_inv p" and cov: "\<And>r. fakeOf p r \<noteq> None \<Longrightarrow> r \<in> set (visit (keyShard r))"
  shows "n \<le> 64 \<Longrightarrow> pool_inv (fold (prune_shard now visit) [0..<n] p) \<and>
    leases_of (fold (prune_shard now visit) [0..<n] p) =
      (\<lambda>r. if keyShard r < n then spec_expire now (leases_of p) r else leases_of p r)"
proof (induction n)
  case (Suc n)
  let ?q = "fold (prune_shard now visit) [0..<n] p"
  have invq: "pool_inv ?q" and L: "leases_of ?q =
      (\<lambda>r. if keyShard r < n then spec_expire now (leases_of p) r else leases_of p r)"
    using Suc by auto
  have "fakeOf p r \<noteq> None" if "fakeOf ?q r \<noteq> None" for r
  proof -
    have "leases_of ?q r \<noteq> None" using that by (simp add: leases_of_None)
    then have "leases_of p r \<noteq> None" unfolding L by (auto simp: spec_expire_over split: if_splits)
    then show ?thesis by (simp add: leases_of_None)
  qed
  then have "leases_of (prune_shard now visit n ?q) r =
      (if keyShard r = n then spec_expire now (leases_of ?q) r else leases_of ?q r)" for r
    using Suc.prems cov by (intro prune_shard_leases [OF invq]) auto
  moreover have "pool_inv (prune_shard now visit n ?q)"
    using Suc.prems pool_moves.run_inv [OF prune_delete_moves [OF invq] invq] by (simp add: prune_shard_def [of _ _ n])
  ultimately show ?case by (auto simp: L fun_eq_iff spec_expire_def)
qed (simp add: inv)

text \<open>C7: a pruning pass removes exactly the leases whose expiry time has passed, whatever the order in
  which the runtime visits each expiry map, and leaves every other lease as it was.\<close>

theorem PruneExpired_refines:
  assumes "pool_inv p" "\<forall>i < 64. dom (expiries (shards p ! i)) \<subseteq> set (visit i)"
  shows "leases_of (PruneExpired now visit p) = spec_expire now (leases_of p)"
proof -
  have "r \<in> set (visit (keyShard r))" if "fakeOf p r \<noteq> None" for r
  proof -
    have "r \<in> dom (expiries (shards p ! keyShard r))"
      using that pool_inv_expiry [OF assms(1), of r] by (auto simp: expiryOf_def)
    with assms(2) keyShard_less [of r] show ?thesis by blast
  qed
  with prune_shards_leases [OF assms(1), of visit 64 now] show ?thesis
    by (simp add: PruneExpired_def fun_eq_iff)
qed

lemma expiries_cover:
  assumes "pool_inv p" "dom (fakeOf p) \<subseteq> S" "i < 64"
  shows "dom (expiries (shards p ! i)) \<subseteq> S"
proof
  fix r assume "r \<in> dom (expiries (shards p ! i))"
  then have "realToFake (shards p ! i) r \<noteq> None" using assms(1,3) by (auto simp: pool_inv_def)
  moreover from this have "i = keyShard r" using assms(1,3) by (auto simp: pool_inv_def)
  ultimately show "r \<in> S" using assms(2) by (auto simp: fakeOf_def)
qed

theorem PruneExpired_refines_witness:
  "leases_of (PruneExpired 200 (\<lambda>_. [ToIPKey [1, 1, 1, 1]])
     (snd (AddMapping [1, 1, 1, 1] [198, 18, 0, 9] 5 100 (NewIPPool [] [])))) = Map.empty"
proof -
  let ?n = "NewIPPool [] []" and ?p = "snd (AddMapping [1, 1, 1, 1] [198, 18, 0, 9] 5 100 (NewIPPool [] []))"
  let ?r = "ToIPKey [1, 1, 1, 1]"
  have n: "pool_inv ?n" "leases_of ?n = Map.empty" by (simp_all add: NewIPPool_def pool_inv_New)
  have inv: "pool_inv ?p" using pool_moves.run_inv [OF AddMapping_moves [OF n(1)] n(1)] by simp
  have L: "leases_of ?p = [?r \<mapsto> \<lparr>ls_fake = ToIPKey [198, 18, 0, 9], ls_ver = 5, ls_expires = 100\<rparr>]"
    using AddMapping_leases [OF n(1), of "[1, 1, 1, 1]" "[198, 18, 0, 9]" 5 100] n(2)
    by (cases "AddMapping [1, 1, 1, 1] [198, 18, 0, 9] 5 100 ?n")
      (simp add: spec_add_def spec_blocked_def spec_release_def fun_eq_iff)
  have "dom (fakeOf ?p) = dom (leases_of ?p)" by (auto simp: dom_def leases_of_def)
  then have "\<forall>i < 64. dom (expiries (shards ?p ! i)) \<subseteq> set [?r]" using expiries_cover [OF inv, of "{?r}"] L by simp
  from PruneExpired_refines [OF inv this, of 200] show ?thesis
    by (simp add: L fun_eq_iff spec_expire_def)
qed

subsection \<open>Leasing\<close>

text \<open>Renewing a lease, or granting a new one for a fake address that \<open>pick\<close> finds given the leases in force
  once the lapsed lease of the same real address is gone.\<close>

definition spec_grant ::
  "(leases \<Rightarrow> IPKey option) \<Rightarrow> int \<Rightarrow> int \<Rightarrow> int \<Rightarrow> u64 \<Rightarrow> IPKey \<Rightarrow> leases \<Rightarrow> IPKey option \<times> leases" where
  "spec_grant pick now soon e v r L =
     (if \<exists>l. L r = Some l \<and> now < ls_expires l
      then (map_option ls_fake (L r),
        if ls_expires (the (L r)) < soon then L(r \<mapsto> (the (L r))\<lparr>ls_expires := e\<rparr>) else L)
      else let L' = L(r := None)
        in case pick L' of None \<Rightarrow> (None, L')
           | Some f \<Rightarrow> (Some f, L'(r \<mapsto> \<lparr>ls_fake = f, ls_ver = v, ls_expires = e\<rparr>)))"

definition free_or_none :: "IPKey \<Rightarrow> leases \<Rightarrow> IPKey option" where
  "free_or_none f L = (if f \<in> taken L then None else Some f)"

lemma live_leases: "(\<exists>l. leases_of p r = Some l \<and> now < ls_expires l) \<longleftrightarrow> \<not> lapsed now p r"
  by (cases "fakeOf p r") (auto simp: leases_of_Some lapsed_def)



end
