(* ===== verification/GoCIDR.thy ===== *)
theory GoCIDR
  imports GoNetText
begin

text \<open>
  \<^verbatim>\<open>net.ParseCIDR\<close> and membership in a prefix. Addresses of a prefix are compared as big-endian
  numbers: an address is in the prefix when its quotient by the size of the prefix is the same.
\<close>

subsection \<open>Definitions\<close>

text \<open>\<^verbatim>\<open>strings.Cut\<close> with a one-character separator.\<close>

definition Cut :: "string \<Rightarrow> char \<Rightarrow> (string \<times> string) option" where
  "Cut s c = (if c \<in> set s then Some (takeWhile (\<lambda>x. x \<noteq> c) s, tl (dropWhile (\<lambda>x. x \<noteq> c) s)) else None)"

text \<open>\<^verbatim>\<open>dtoi\<close> of package \<^verbatim>\<open>net\<close>: the value of the leading digits and the unread rest; \<^const>\<open>None\<close> when there
  is no digit or the value reaches \<^verbatim>\<open>big\<close>.\<close>

fun dtoi_loop :: "nat \<Rightarrow> string \<Rightarrow> (nat \<times> string) option" where
  "dtoi_loop n [] = Some (n, [])"
| "dtoi_loop n (c # s) =
     (if is_digit c
      then (if 0xFFFFFF \<le> n * 10 + digit_val c then None else dtoi_loop (n * 10 + digit_val c) s)
      else Some (n, c # s))"

definition dtoi :: "string \<Rightarrow> (nat \<times> string) option" where
  "dtoi s = (if s = [] \<or> \<not> is_digit (hd s) then None else dtoi_loop 0 s)"

text \<open>\<^verbatim>\<open>netip.ParseAddr\<close> without zones: the bit length and the 16-byte form.\<close>

definition ParseAddr :: "string \<Rightarrow> (nat \<times> IP) option" where
  "ParseAddr s = map_option (\<lambda>ip.
     (if dropWhile not_sep s \<noteq> [] \<and> hd (dropWhile not_sep s) = CHR ''.'' then 32 else 128, ip))
     (ParseIP s)"

definition ParseCIDR :: "string \<Rightarrow> (IP \<times> IPNet) option" where
  "ParseCIDR s =
     (case Cut s (CHR ''/'') of None \<Rightarrow> None
      | Some (addr, msk) \<Rightarrow>
          (case ParseAddr addr of None \<Rightarrow> None
           | Some (bits, ip) \<Rightarrow>
               (case dtoi msk of None \<Rightarrow> None
                | Some (n, rest) \<Rightarrow>
                    if rest \<noteq> [] \<or> bits < n then None
                    else let m = slice (CIDRMask (int n) bits)
                         in Some (ip, \<lparr>net_IP = slice (IP_Mask ip m), net_Mask = m\<rparr>))))"

text \<open>The number a byte slice stands for.\<close>

fun be_nat :: "byte list \<Rightarrow> nat" where
  "be_nat [] = 0"
| "be_nat (b # bs) = unat b * 256 ^ length bs + be_nat bs"

definition mask_bytes :: "nat \<Rightarrow> nat \<Rightarrow> byte list" where
  "mask_bytes n L = map (\<lambda>i. mask_byte (n - 8 * i)) [0..<L]"

subsection \<open>Prefixes as quotients\<close>

lemma be_nat_less: "be_nat bs < 256 ^ length bs"
proof (induction bs)
  case (Cons b bs)
  have "unat b * 256 ^ length bs + be_nat bs < (unat b + 1) * 256 ^ length bs" using Cons by simp
  also have "\<dots> \<le> 256 * 256 ^ length bs" using unat_byte_le [of b] by (intro mult_right_mono) auto
  finally show ?case by simp
qed simp

lemma mask_bytes_Suc [simp]: "mask_bytes n (Suc L) = mask_byte n # mask_bytes (n - 8) L"
  by (simp add: mask_bytes_def map_upt_Suc del: upt_Suc)

lemma mask_bytes_0 [simp]: "mask_bytes n 0 = []"
  by (simp add: mask_bytes_def)

lemma length_mask_bytes [simp]: "length (mask_bytes n L) = L"
  by (simp add: mask_bytes_def)

lemma mask_byte_0 [simp]: "mask_byte 0 = 0"
  by (rule bit_word_eqI) (simp add: mask_byte_def bit_simps)

lemma and_mask_byte_full: "8 \<le> n \<Longrightarrow> z AND mask_byte n = z"
proof -
  have "(255 :: byte) = - 1" by simp
  then show "8 \<le> n \<Longrightarrow> z AND mask_byte n = z" by (simp only: mask_byte_def if_True and.right_neutral)
qed

lemma and_mask_bytes_0: "length xs = L \<Longrightarrow> map2 (AND) xs (mask_bytes 0 L) = replicate L 0"
proof (induction xs arbitrary: L)
  case (Cons x xs)
  then show ?case by (cases L) auto
qed simp

lemma unat_drop_bit_byte: "unat (drop_bit k z) = unat (z :: byte) div 2 ^ k"
proof -
  have "unat (drop_bit k z) = drop_bit k (take_bit LENGTH(8) (unat z))" by (rule unsigned_drop_bit_eq)
  also have "take_bit LENGTH(8) (unat z) = unat z" by (rule take_bit_nat_eq_self) (rule unsigned_less)
  finally show ?thesis by (simp only: drop_bit_eq_div)
qed

lemma and_not_mask_eq:
  fixes a b :: byte
  assumes "k \<le> 8"
  shows "a AND NOT (mask k) = b AND NOT (mask k) \<longleftrightarrow> unat a div 2 ^ k = unat b div 2 ^ k"
proof -
  have low: "bit (z AND NOT (mask k)) n \<longleftrightarrow> k \<le> n \<and> bit (drop_bit k z) (n - k)" if "n < 8" for n and z :: byte
    using that by (auto simp: bit_simps)
  have high: "bit (drop_bit k z) n \<longleftrightarrow> bit (z AND NOT (mask k)) (k + n)" for n and z :: byte
    using not_bit_byte [of "k + n" z] by (cases "k + n < 8") (auto simp: bit_simps)
  have "a AND NOT (mask k) = b AND NOT (mask k) \<longleftrightarrow> drop_bit k a = drop_bit k b"
  proof
    assume eq: "a AND NOT (mask k) = b AND NOT (mask k)"
    show "drop_bit k a = drop_bit k b" by (rule bit_eqI) (simp only: high eq)
  next
    assume eq: "drop_bit k a = drop_bit k b"
    show "a AND NOT (mask k) = b AND NOT (mask k)" by (rule bit_word_eqI) (simp add: low eq)
  qed
  also have "\<dots> \<longleftrightarrow> unat (drop_bit k a) = unat (drop_bit k b)" by (rule word_unat_eq_iff)
  also have "\<dots> \<longleftrightarrow> unat a div 2 ^ k = unat b div 2 ^ k"
    by (simp only: unat_drop_bit_byte)
  finally show ?thesis .
qed

lemma digits_eq_iff:
  fixes x y m :: nat
  assumes "q < m" "q' < m"
  shows "x * m + q = y * m + q' \<longleftrightarrow> x = y \<and> q = q'"
proof
  assume eq: "x * m + q = y * m + q'"
  then have "(x * m + q) div m = (y * m + q') div m" "(x * m + q) mod m = (y * m + q') mod m" by simp_all
  with assms show "x = y \<and> q = q'" by simp
qed simp

lemma pow256: "(256 :: nat) ^ l = 2 ^ (8 * l)"
  by (simp add: power_mult)

lemma be_nat_Cons_div:
  assumes "j \<le> 8 * length xs"
  shows "be_nat (x # xs) div 2 ^ j = unat x * 2 ^ (8 * length xs - j) + be_nat xs div 2 ^ j"
    "be_nat xs div 2 ^ j < 2 ^ (8 * length xs - j)"
proof -
  have p: "(256 :: nat) ^ length xs = 2 ^ (8 * length xs - j) * 2 ^ j"
    using assms by (simp add: pow256 flip: power_add)
  show "be_nat (x # xs) div 2 ^ j = unat x * 2 ^ (8 * length xs - j) + be_nat xs div 2 ^ j"
    by (simp add: p mult.assoc [symmetric])
  show "be_nat xs div 2 ^ j < 2 ^ (8 * length xs - j)"
    using be_nat_less [of xs] by (simp add: p less_mult_imp_div_less)
qed

lemma be_nat_Cons_head: "be_nat (z # zs) div 2 ^ (8 * length zs + k) = unat z div 2 ^ k"
proof -
  have "be_nat (z # zs) div 2 ^ (8 * length zs) = unat z" using be_nat_less [of zs] by (simp add: pow256)
  then show ?thesis by (simp only: power_add div_mult2_eq)
qed

lemma be_nat_Cons_eq:
  assumes "j \<le> 8 * length xs" "length ys = length xs"
  shows "be_nat (x # xs) div 2 ^ j = be_nat (y # ys) div 2 ^ j \<longleftrightarrow> x = y \<and> be_nat xs div 2 ^ j = be_nat ys div 2 ^ j"
proof -
  let ?m = "2 ^ (8 * length xs - j) :: nat"
  have a: "be_nat (x # xs) div 2 ^ j = unat x * ?m + be_nat xs div 2 ^ j" "be_nat xs div 2 ^ j < ?m"
    using be_nat_Cons_div assms(1) by blast+
  have b: "be_nat (y # ys) div 2 ^ j = unat y * ?m + be_nat ys div 2 ^ j" "be_nat ys div 2 ^ j < ?m"
    using be_nat_Cons_div [of j ys] assms by (simp_all only:)
  have "unat x = unat y \<longleftrightarrow> x = y" by (simp add: word_unat_eq_iff)
  then show ?thesis unfolding a(1) b(1) using digits_eq_iff [OF a(2) b(2)] by blast
qed

lemma masked_eq_iff:
  "length b = length a \<Longrightarrow> n \<le> 8 * length a \<Longrightarrow>
   map2 (AND) a (mask_bytes n (length a)) = map2 (AND) b (mask_bytes n (length a)) \<longleftrightarrow>
   be_nat a div 2 ^ (8 * length a - n) = be_nat b div 2 ^ (8 * length a - n)"
proof (induction a arbitrary: b n)
  case (Cons x xs)
  then obtain y ys where b: "b = y # ys" "length ys = length xs" by (cases b) auto
  define j where "j = 8 * length (x # xs) - n"
  then have jj: "8 * Suc (length xs) - n = j" by simp
  show ?case
  proof (cases "8 \<le> n")
    case True
    have j: "8 * length xs - (n - 8) = j" "j \<le> 8 * length xs" using True by (auto simp: j_def)
    have "n - 8 \<le> 8 * length xs" using Cons.prems(2) by simp
    note rest = Cons.IH [OF b(2) this, unfolded j(1)]
    have "map2 (AND) (z # zs) (mask_bytes n (Suc l)) = z # map2 (AND) zs (mask_bytes (n - 8) l)" for z zs l
      using True by (simp add: and_mask_byte_full)
    then show ?thesis unfolding length_Cons jj b(1) be_nat_Cons_eq [OF j(2) b(2)]
      by (simp only: rest list.inject)
  next
    case False
    then have j: "j = 8 * length xs + (8 - n)" and zero: "n - 8 = 0" by (auto simp: j_def)
    have m: "map2 (AND) (z # zs) (mask_bytes n (Suc (length xs))) = (z AND NOT (mask (8 - n))) # replicate (length xs) 0"
      if "length zs = length xs" for z zs
      using False and_mask_bytes_0 [OF that] by (simp add: zero mask_byte_def)
    have q: "be_nat (z # zs) div 2 ^ j = unat z div 2 ^ (8 - n)" if "length zs = length xs" for z zs
      using be_nat_Cons_head [of z zs "8 - n"] unfolding that j .
    show ?thesis unfolding length_Cons jj b(1) q [OF b(2)] q [OF refl] m [OF b(2)] m [OF refl]
      using and_not_mask_eq [of "8 - n" x y] by (simp only: list.inject simp_thms diff_le_self)
  qed
qed simp

subsection \<open>Parsing a printed prefix\<close>

lemma Cut_append: "c \<notin> set a \<Longrightarrow> Cut (a @ c # b) c = Some (a, b)"
proof -
  assume "c \<notin> set a"
  then have "takeWhile (\<lambda>x. x \<noteq> c) (a @ c # b) = a" "dropWhile (\<lambda>x. x \<noteq> c) (a @ c # b) = c # b"
    by (induction a) auto
  then show ?thesis by (simp add: Cut_def)
qed

lemma dtoi_loop_digits:
  "(\<And>c. c \<in> set ds \<Longrightarrow> is_digit c) \<Longrightarrow> foldl (\<lambda>a c. a * 10 + digit_val c) n ds < 0xFFFFFF \<Longrightarrow>
     dtoi_loop n ds = Some (foldl (\<lambda>a c. a * 10 + digit_val c) n ds, [])"
proof (induction ds arbitrary: n)
  case (Cons c ds)
  have grow: "x \<le> foldl (\<lambda>a c. a * 10 + digit_val c) x ds" for x
  proof (induction ds arbitrary: x)
    case (Cons d ds)
    from Cons [of "x * 10 + digit_val d"] show ?case by simp
  qed simp
  have "n * 10 + digit_val c < 0xFFFFFF" using grow [of "n * 10 + digit_val c"] Cons.prems(2) by simp
  with Cons show ?case by simp
qed simp

lemma foldl_Itoa: "foldl (\<lambda>a c. a * 10 + digit_val c) 0 (Itoa n) = n"
proof (induction n rule: Itoa.induct)
  case (1 n)
  then show ?case by (subst Itoa.simps) simp
qed

lemma dtoi_Itoa: "n < 0xFFFFFF \<Longrightarrow> dtoi (Itoa n) = Some (n, [])"
  using Itoa_digits [of "hd (Itoa n)" n] dtoi_loop_digits [of "Itoa n" 0] Itoa_digits [of _ n]
  by (simp add: dtoi_def foldl_Itoa)

lemma ParseAddr_String:
  "length b = 4 \<Longrightarrow> ParseAddr (String4 b) = Some (32, v4InV6Prefix @ b)"
  "length b = 16 \<Longrightarrow> ParseAddr (String6 (groups b)) = Some (128, b)"
proof -
  assume "length b = 4"
  then show "ParseAddr (String4 b) = Some (32, v4InV6Prefix @ b)"
    using ParseIP_String4 [of b] by (rule_tac first_sep_String4 [of b]) (simp_all add: ParseAddr_def)
next
  assume len: "length b = 16"
  obtain r where "dropWhile not_sep (String6 (groups b)) = CHR '':'' # r"
    using first_sep_String6 [of "groups b"] len by (auto simp: length_groups)
  moreover have "ParseIP (String6 (groups b)) = Some b"
    using ParseIP_String6 [of "groups b"] len by (simp add: length_groups small_groups_groups group_list_bytes_groups)
  ultimately show "ParseAddr (String6 (groups b)) = Some (128, b)" by (simp add: ParseAddr_def)
qed

lemma CIDRMask_bytes:
  "n \<le> 32 \<Longrightarrow> CIDRMask (int n) 32 = Some (mask_bytes n 4)"
  "n \<le> 128 \<Longrightarrow> CIDRMask (int n) 128 = Some (mask_bytes n 16)"
  by (simp_all add: CIDRMask_def mask_bytes_def)

lemma no_slash:
  "CHR ''/'' \<notin> set (String4 b)" "CHR ''/'' \<notin> set (String6 gs)"
  using String4_chars [of "CHR ''/''" b] String6_chars [of "CHR ''/''" gs]
  by (auto simp: is_hex_def is_digit_def ord_def)

theorem ParseCIDR_String4:
  assumes "length b = 4" "n \<le> 32"
  shows "ParseCIDR (String4 b @ ''/'' @ Itoa n) =
    Some (v4InV6Prefix @ b, \<lparr>net_IP = map2 (AND) b (mask_bytes n 4), net_Mask = mask_bytes n 4\<rparr>)"
  using assms by (simp add: ParseCIDR_def Cut_append no_slash ParseAddr_String dtoi_Itoa CIDRMask_bytes
      slice_def IP_Mask_def Let_def v4InV6Prefix_def)

theorem ParseCIDR_String6:
  assumes "length b = 16" "To4 b = None" "n \<le> 128"
  shows "ParseCIDR (String6 (groups b) @ ''/'' @ Itoa n) =
    Some (b, \<lparr>net_IP = map2 (AND) b (mask_bytes n 16), net_Mask = mask_bytes n 16\<rparr>)"
  using assms by (simp add: ParseCIDR_def Cut_append no_slash ParseAddr_String dtoi_Itoa CIDRMask_bytes
      slice_def IP_Mask_def Let_def)

subsection \<open>Membership in a parsed prefix\<close>

lemma masked_idem: "length m = length b \<Longrightarrow> map2 (AND) (map2 (AND) b m) m = map2 (AND) (b :: byte list) m"
proof (induction b arbitrary: m)
  case (Cons x b)
  then show ?case by (cases m) (simp_all add: and.assoc)
qed simp

lemma and_mask_byte_255: "x AND mask_byte k = 255 \<Longrightarrow> 8 \<le> k"
proof (rule ccontr)
  assume "x AND mask_byte k = 255" "\<not> 8 \<le> k"
  then have "bit (x AND NOT (mask (8 - k))) 0 = bit (255 :: byte) 0" by (simp add: mask_byte_def)
  with \<open>\<not> 8 \<le> k\<close> show False by (simp add: bit_simps)
qed

lemma masked_not_v4:
  assumes "length b = 16" "To4 b = None"
  shows "To4 (map2 (AND) b (mask_bytes n 16)) = None"
proof (rule ccontr)
  let ?m = "map2 (AND) b (mask_bytes n 16)"
  have at: "?m ! i = b ! i AND mask_byte (n - 8 * i)" if "i < 16" for i
    using that assms(1) by (simp add: mask_bytes_def)
  assume "To4 ?m \<noteq> None"
  then have pre: "take 12 ?m = v4InV6Prefix" using assms(1) by (auto simp: To4_def split: if_splits)
  then have nth: "?m ! i = v4InV6Prefix ! i" if "i < 12" for i using that by (metis nth_take)
  have "b ! 11 AND mask_byte (n - 88) = 255" using nth [of 11] at [of 11] by (simp add: v4InV6Prefix_def)
  then have "8 \<le> n - 88" by (rule and_mask_byte_255)
  then have "b ! i = v4InV6Prefix ! i" if "i < 12" for i
    using nth [OF that] at [of i] that by (simp add: and_mask_byte_full)
  then have "take 12 b = v4InV6Prefix" using assms(1) by (intro nth_equalityI) (auto simp: v4InV6Prefix_def)
  with assms show False by (simp add: To4_def)
qed

lemma Contains4:
  assumes "length b = 4" "n \<le> 32"
  shows "IPNet_Contains \<lparr>net_IP = map2 (AND) b (mask_bytes n 4), net_Mask = mask_bytes n 4\<rparr> ip \<longleftrightarrow>
    (\<exists>x. To4 ip = Some x \<and> be_nat x div 2 ^ (32 - n) = be_nat b div 2 ^ (32 - n))"
proof -
  let ?m = "mask_bytes n 4"
  have nn: "networkNumberAndMask \<lparr>net_IP = map2 (AND) b ?m, net_Mask = ?m\<rparr> = Some (map2 (AND) b ?m, ?m)"
    using assms(1) by (simp add: networkNumberAndMask_def To4_def Let_def)
  show ?thesis
  proof (cases "To4 ip")
    case None
    then have "length ip \<noteq> 4" by (auto simp: To4_def)
    with None assms(1) show ?thesis by (simp add: IPNet_Contains_def nn)
  next
    case (Some x)
    then have "length x = 4" by (rule To4_To16)
    with Some masked_eq_iff [of x b n] masked_idem [of ?m b] assms show ?thesis
      by (auto simp: IPNet_Contains_def nn)
  qed
qed

lemma Contains6:
  assumes "length b = 16" "To4 b = None" "n \<le> 128"
  shows "IPNet_Contains \<lparr>net_IP = map2 (AND) b (mask_bytes n 16), net_Mask = mask_bytes n 16\<rparr> ip \<longleftrightarrow>
    To4 ip = None \<and> length ip = 16 \<and> be_nat ip div 2 ^ (128 - n) = be_nat b div 2 ^ (128 - n)"
proof -
  let ?m = "mask_bytes n 16"
  have nn: "networkNumberAndMask \<lparr>net_IP = map2 (AND) b ?m, net_Mask = ?m\<rparr> = Some (map2 (AND) b ?m, ?m)"
    using assms(1) masked_not_v4 [OF assms(1,2)] by (simp add: networkNumberAndMask_def Let_def)
  show ?thesis
  proof (cases "To4 ip")
    case None
    with masked_eq_iff [of ip b n] masked_idem [of ?m b] assms show ?thesis
      by (auto simp: IPNet_Contains_def nn)
  next
    case (Some x)
    then have "length x = 4" by (rule To4_To16)
    with Some assms(1) show ?thesis by (simp add: IPNet_Contains_def nn)
  qed
qed

lemma be_nat_append: "be_nat (a @ b) = be_nat a * 256 ^ length b + be_nat b"
  by (induction a) (simp_all add: power_add algebra_simps)

lemma unat_ucast_drop_bit: "unat (ucast (drop_bit k v) :: byte) = unat (v :: u32) div 2 ^ k mod 256"
proof -
  have "unat (ucast (drop_bit k v) :: byte) = take_bit LENGTH(8) (unat (drop_bit k v))" by (rule unsigned_ucast_eq)
  also have "unat (drop_bit k v) = drop_bit k (take_bit LENGTH(32) (unat v))" by (rule unsigned_drop_bit_eq)
  also have "take_bit LENGTH(32) (unat v) = unat v" by (rule take_bit_nat_eq_self) (rule unsigned_less)
  finally show ?thesis by (simp add: take_bit_eq_mod drop_bit_eq_div)
qed

lemma horner:
  "256 * c + z = n \<Longrightarrow> 256 * b + y = c \<Longrightarrow> 256 * a + x = b \<Longrightarrow>
     a * 256 ^ 3 + x * 256 ^ 2 + y * 256 + z = (n :: nat)"
  by (auto simp: algebra_simps)

lemma four_digits:
  fixes n :: nat
  assumes "n < 2 ^ 32"
  shows "(n div 2 ^ 24 mod 256) * 256 ^ 3 + (n div 2 ^ 16 mod 256) * 256 ^ 2 + (n div 2 ^ 8 mod 256) * 256 + n mod 256 = n"
proof -
  have d: "n div 2 ^ 16 = n div 2 ^ 8 div 256" "n div 2 ^ 24 = n div 2 ^ 16 div 256"
    by (simp_all add: div_mult2_eq [symmetric])
  have "n div 2 ^ 24 < 256" using assms by (simp add: less_mult_imp_div_less)
  then have m: "n div 2 ^ 24 mod 256 = n div 2 ^ 24" by (rule mod_less)
  have "256 * (n div 2 ^ 8) + n mod 256 = n" by simp
  moreover have "256 * (n div 2 ^ 16) + (n div 2 ^ 8) mod 256 = n div 2 ^ 8" unfolding d by simp
  moreover have "256 * (n div 2 ^ 24) + (n div 2 ^ 16) mod 256 = n div 2 ^ 16" unfolding d(2) by simp
  ultimately show ?thesis unfolding m by (rule horner)
qed

lemma be_nat_PutUint32 [simp]: "be_nat (BigEndian_PutUint32 v) = unat v"
proof -
  have "unat v < 2 ^ LENGTH(32)" by (rule unsigned_less)
  then have "unat v < 2 ^ 32" by simp
  moreover have "be_nat [p, q, r, s] = unat p * 256 ^ 3 + unat q * 256 ^ 2 + unat r * 256 + unat s" for p q r s
    by simp
  ultimately show ?thesis
    using unat_ucast_drop_bit [of 0 v]
    by (simp only: BigEndian_PutUint32_def unat_ucast_drop_bit drop_bit_0 id_apply power_0 div_by_1 four_digits)
qed

lemma be_nat_Uint32: "length b = 4 \<Longrightarrow> be_nat b = unat (BigEndian_Uint32 b)"
  by (metis BigEndian_PutUint32_Uint32_4 be_nat_PutUint32)

end
