(* ===== verification/PoolRange.thy ===== *)
theory PoolRange
  imports PoolAlloc GoCIDR
begin

text \<open>
  Where allocated addresses lie. The pool advertises its range as a prefix (\<^verbatim>\<open>GetPoolNet\<close>,
  \<^verbatim>\<open>GetPoolNet6\<close>), which the synchronisation layer and the packet filter use; the allocator computes
  addresses by wrap-around arithmetic from the start of the pool. The two agree when the start is
  aligned to the prefix length, which the constructor establishes by masking.
\<close>

subsection \<open>Definitions\<close>

text \<open>\<open>k\<close> is the number of host bits.\<close>

definition aligned4 :: "nat \<Rightarrow> IPPool \<Rightarrow> bool" where
  "aligned4 k p \<longleftrightarrow> k \<le> 32 \<and> cidrMask p = 32 - int k \<and> poolSize p \<noteq> 0 \<and> unat (poolSize p) \<le> 2 ^ k \<and>
     2 ^ k dvd unat (poolStart p)"

definition aligned6 :: "nat \<Rightarrow> IPPool \<Rightarrow> bool" where
  "aligned6 k p \<longleftrightarrow> k \<le> 32 \<and> cidrMask6 p = 128 - int k \<and> poolSize6 p \<noteq> 0 \<and> unat (poolSize6 p) \<le> 2 ^ k \<and>
     length (poolStart6 p) = 16 \<and> To4 (poolStart6 p) = None \<and>
     2 ^ k dvd unat (BigEndian_Uint32 (drop 12 (poolStart6 p)))"

text \<open>The prefixes the pool advertises, as a peer parses them.\<close>

definition poolNet4 :: "IPPool \<Rightarrow> IPNet option" where
  "poolNet4 p = map_option snd (ParseCIDR (GetPoolNet p))"

definition poolNet6 :: "IPPool \<Rightarrow> IPNet option" where
  "poolNet6 p = map_option snd (ParseCIDR (GetPoolNet6 p))"

subsection \<open>Arithmetic of aligned blocks\<close>

lemma aligned_sum:
  fixes s w :: u32
  assumes "2 ^ k dvd unat s" "unat w < 2 ^ k" "k \<le> 32"
  shows "unat (s + w) = unat s + unat w" "unat (s + w) div 2 ^ k = unat s div 2 ^ k"
proof -
  have "unat s < 2 ^ LENGTH(32)" by (rule unsigned_less)
  then have s: "unat s < 2 ^ 32" by simp
  obtain q where q: "unat s = 2 ^ k * q" using assms(1) by (elim dvdE)
  have m: "(2 :: nat) ^ 32 = 2 ^ k * 2 ^ (32 - k)" using assms(3) by (simp flip: power_add)
  then have "q < 2 ^ (32 - k)" using s q by (metis nat_mult_less_cancel1 zero_less_numeral zero_less_power)
  then have "2 ^ k * (q + 1) \<le> (2 :: nat) ^ 32" unfolding m by (intro mult_le_mono2) simp
  then have "unat s + unat w < 2 ^ 32" using q assms(2) by simp
  then show sum: "unat (s + w) = unat s + unat w" by (simp add: unat_add_lem [THEN iffD1])
  show "unat (s + w) div 2 ^ k = unat s div 2 ^ k" unfolding sum q using assms(2) by simp
qed

lemma unat_mod_less: "n \<noteq> 0 \<Longrightarrow> unat (x mod n :: u32) < unat n"
  by (simp add: unat_mod unat_gt_0)

text \<open>Moving off a block edge stays in the block.\<close>

lemma mod256_unat: "v mod 256 = of_nat m \<longleftrightarrow> unat v mod 256 = m" if "m < 256" for v :: u32
proof -
  have "unat (of_nat m :: u32) = m" using that by (simp add: unsigned_of_nat take_bit_nat_eq_self)
  then show ?thesis by (simp add: word_unat_eq_iff unat_mod)
qed

lemma edge_unat:
  fixes v :: u32
  shows "v mod 256 = 0 \<Longrightarrow> unat (v + 1) = unat v + 1" "v mod 256 = 255 \<Longrightarrow> unat (v - 1) = unat v - 1"
proof -
  have lt: "unat v < 2 ^ LENGTH(32)" by (rule unsigned_less)
  assume "v mod 256 = 0"
  then have "unat v mod 256 = 0" using mod256_unat [of 0 v] by simp
  then have "unat v \<noteq> 2 ^ 32 - 1" by auto
  then have "unat v + unat (1 :: u32) < 2 ^ LENGTH(32)" using lt by simp
  then show "unat (v + 1) = unat v + 1" using unat_add_lem [of v 1] by simp
next
  assume "v mod 256 = 255"
  then have "v \<noteq> 0" by auto
  then show "unat (v - 1) = unat v - 1" by (simp add: unat_minus_one)
qed

lemma step_off_edge:
  fixes v :: u32
  assumes "1 \<le> k"
  shows "v mod 256 = 0 \<Longrightarrow> unat (v + 1) div 2 ^ k = unat v div 2 ^ k"
    "v mod 256 = 255 \<Longrightarrow> unat (v - 1) div 2 ^ k = unat v div 2 ^ k"
proof -
  have pow: "(2 :: nat) ^ k = 2 * 2 ^ (k - 1)" using assms(1) by (cases k) simp_all
  have half: "(2 * x + 1) div 2 ^ k = 2 * x div 2 ^ k" for x :: nat unfolding pow by (simp add: div_mult2_eq)
  have parity: "unat v = 2 * (unat v div 2) + unat v mod 2" by simp
  have par: "unat v mod 2 = unat v mod 256 mod 2" by (simp add: mod_mod_cancel)
  {
    assume v: "v mod 256 = 0"
    then obtain x where x: "unat v = 2 * x" using mod256_unat [of 0 v] parity par by simp
    with half edge_unat(1) [OF v] show "unat (v + 1) div 2 ^ k = unat v div 2 ^ k" by simp
  next
    assume v: "v mod 256 = 255"
    then obtain x where x: "unat v = 2 * x + 1" using mod256_unat [of 255 v] parity par by simp
    with half edge_unat(2) [OF v] show "unat (v - 1) div 2 ^ k = unat v div 2 ^ k" by simp
  }
qed

lemma off_edge_last:
  fixes v :: u32
  defines "c \<equiv> if v mod 256 = 0 then v + 1 else if v mod 256 = 255 then v - 1 else v"
  shows "c mod 256 \<noteq> 0" "c mod 256 \<noteq> 255"
proof -
  have "(unat v + 1) mod 256 = 1" if "unat v mod 256 = 0" using that by (simp add: mod_Suc)
  moreover have "(unat v - 1) mod 256 = 254" if "unat v mod 256 = 255"
  proof -
    have "unat v = 256 * (unat v div 256) + 255" using div_mult_mod_eq [of "unat v" 256] that by simp
    then have "unat v - 1 = 254 + 256 * (unat v div 256)" by linarith
    then obtain q where "unat v - 1 = 254 + 256 * q" ..
    then show ?thesis by (simp only: mod_mult_self2) simp
  qed
  ultimately show "c mod 256 \<noteq> 0" "c mod 256 \<noteq> 255"
    using mod256_unat [of 0 v] mod256_unat [of 255 v] mod256_unat [of 0 c] mod256_unat [of 255 c] edge_unat [of v]
    unfolding c_def by (auto split: if_splits)
qed

subsection \<open>Allocated addresses\<close>

lemma unat_u32_IPv4: "To4 (u32_IPv4 c) = Some (BigEndian_PutUint32 c)"
  by (simp add: u32_IPv4_eq)

lemma GetPoolNet_parse:
  assumes "aligned4 k p"
  shows "poolNet4 p = Some \<lparr>net_IP = map2 (AND) (BigEndian_PutUint32 (poolStart p)) (mask_bytes (32 - k) 4),
    net_Mask = mask_bytes (32 - k) 4\<rparr>"
proof -
  have "nat (cidrMask p) = 32 - k" using assms by (simp add: aligned4_def)
  then show ?thesis using ParseCIDR_String4 [of "BigEndian_PutUint32 (poolStart p)" "32 - k"]
    by (simp add: poolNet4_def GetPoolNet_def UintToIP_def)
qed

lemma Contains_poolNet4:
  assumes al: "aligned4 k p" and net: "poolNet4 p = Some n"
  shows "IPNet_Contains n (u32_IPv4 c) \<longleftrightarrow> unat c div 2 ^ k = unat (poolStart p) div 2 ^ k"
proof -
  have k: "32 - (32 - k) = k" using al by (simp add: aligned4_def)
  show ?thesis using net GetPoolNet_parse [OF al] Contains4 [of "BigEndian_PutUint32 (poolStart p)" "32 - k"]
    by (auto simp: unat_u32_IPv4 k)
qed

lemma candidate4_range:
  assumes "aligned4 k p"
  shows "unat (candidate4 p off j) div 2 ^ k = unat (poolStart p) div 2 ^ k"
  unfolding candidate4_def using assms unat_mod_less [of "poolSize p"]
  by (intro aligned_sum) (auto simp: aligned4_def intro: less_le_trans)

lemma natural4_range:
  assumes al: "aligned4 k p" and k: "1 \<le> k"
  obtains c where "ComputeLevel1Hash realIP False p = u32_IPv4 c" "c mod 256 \<noteq> 0" "c mod 256 \<noteq> 255"
    "unat c div 2 ^ k = unat (poolStart p) div 2 ^ k"
proof -
  define v where "v = poolStart p + fnv1aBytes (slice (To4 realIP)) mod poolSize p"
  have v: "unat v div 2 ^ k = unat (poolStart p) div 2 ^ k"
    unfolding v_def using al unat_mod_less [of "poolSize p"]
    by (intro aligned_sum) (auto simp: aligned4_def intro: less_le_trans)
  define c where "c = (if v mod 256 = 0 then v + 1 else if v mod 256 = 255 then v - 1 else v)"
  show ?thesis
  proof (rule that [of c])
    show "ComputeLevel1Hash realIP False p = u32_IPv4 c"
      by (simp add: ComputeLevel1Hash_def c_def v_def Let_def)
    show "unat c div 2 ^ k = unat (poolStart p) div 2 ^ k"
      using step_off_edge [OF k, of v] v by (simp add: c_def)
  qed (use off_edge_last [of v] in \<open>simp_all only: c_def not_False_eq_True\<close>)
qed

lemma chooseFake4_range:
  assumes al: "aligned4 k p" and k: "1 \<le> k" and ch: "chooseFake realIP False p = Some ip"
  obtains c where "ip = u32_IPv4 c" "c mod 256 \<noteq> 0" "c mod 256 \<noteq> 255"
    "unat c div 2 ^ k = unat (poolStart p) div 2 ^ k"
  using chooseFake4_cases [OF ch] natural4_range [OF al k, of realIP] candidate4_range [OF al]
  by (auto simp: usable4_def)

lemma GetPoolNet6_parse:
  assumes "aligned6 k p"
  shows "poolNet6 p = Some \<lparr>net_IP = map2 (AND) (poolStart6 p) (mask_bytes (128 - k) 16),
    net_Mask = mask_bytes (128 - k) 16\<rparr>"
proof -
  have m: "nat (cidrMask6 p) = 128 - k" and len: "length (poolStart6 p) = 16" "To4 (poolStart6 p) = None"
    using assms by (auto simp: aligned6_def)
  have "IP_String (poolStart6 p) = String6 (groups (poolStart6 p))" using len by (auto simp: IP_String_def)
  then show ?thesis using ParseCIDR_String6 [OF len, of "128 - k"]
    by (simp add: poolNet6_def GetPoolNet6_def m)
qed

lemma block6:
  fixes w :: u32
  assumes len: "length st = 16" and al: "2 ^ k dvd unat (BigEndian_Uint32 (drop 12 st))" "k \<le> 32" and w: "unat w < 2 ^ k"
  defines "ip \<equiv> take 12 st @ BigEndian_PutUint32 (BigEndian_Uint32 (drop 12 st) + w)"
  shows "be_nat ip div 2 ^ k = be_nat st div 2 ^ k"
proof -
  let ?s = "BigEndian_Uint32 (drop 12 st)"
  have "be_nat st = be_nat (take 12 st @ drop 12 st)" by simp
  also have "\<dots> = be_nat (take 12 st) * 2 ^ 32 + unat ?s"
    unfolding be_nat_append using len by (simp add: be_nat_Uint32)
  finally have st: "be_nat st = be_nat (take 12 st) * 2 ^ 32 + unat ?s" .
  have ip: "be_nat ip = be_nat (take 12 st) * 2 ^ 32 + unat (?s + w)"
    by (simp add: ip_def be_nat_append)
  have pow: "(2 :: nat) ^ 32 = 2 ^ (32 - k) * 2 ^ k" using al(2) by (simp flip: power_add)
  have split: "(a * 2 ^ 32 + b) div 2 ^ k = a * 2 ^ (32 - k) + b div 2 ^ k" for a b :: nat
    unfolding pow mult.assoc [symmetric] by simp
  show ?thesis unfolding st ip split using aligned_sum(2) [OF al(1) w al(2)] by simp
qed

lemma chooseFake6_range:
  assumes al: "aligned6 k p" and ch: "chooseFake realIP True p = Some ip"
  shows "length ip = 16" "To4 ip = None" "be_nat ip div 2 ^ k = be_nat (poolStart6 p) div 2 ^ k"
proof -
  let ?st = "poolStart6 p"
  have len: "length ?st = 16" and n4: "take 12 ?st \<noteq> v4InV6Prefix"
    using al by (auto simp: aligned6_def To4_def)
  obtain w where w: "unat w < unat (poolSize6 p)"
    and ip: "ip = take 12 ?st @ BigEndian_PutUint32 (BigEndian_Uint32 (drop 12 ?st) + w)"
    using chooseFake6_cases [OF ch] al unat_mod_less [of "poolSize6 p"]
    by (fastforce simp: ComputeLevel1Hash_def candidate6_def aligned6_def Let_def)
  show "length ip = 16" "To4 ip = None" using len n4 by (simp_all add: ip To4_def)
  have "unat w < 2 ^ k" using w al by (simp add: aligned6_def)
  then show "be_nat ip div 2 ^ k = be_nat ?st div 2 ^ k"
    unfolding ip using al by (intro block6) (auto simp: aligned6_def)
qed

subsection \<open>The constructor aligns the pool\<close>

lemma ceil_log2_bound: "n \<le> 2 ^ ceil_log2 n"
proof (induction n rule: ceil_log2.induct)
  case (1 n)
  show ?case
  proof (cases "n \<le> 1")
    case False
    with 1 have "(n + 1) div 2 \<le> 2 ^ ceil_log2 ((n + 1) div 2)" by blast
    then have "n \<le> 2 * 2 ^ ceil_log2 ((n + 1) div 2)" by linarith
    with False show ?thesis by (subst ceil_log2.simps) simp
  qed (simp add: ceil_log2.simps)
qed

lemma ceil_log2_le: "n \<le> 2 ^ m \<Longrightarrow> ceil_log2 n \<le> m"
proof (induction m arbitrary: n)
  case 0
  then show ?case by (simp add: ceil_log2.simps)
next
  case (Suc m)
  then have "(n + 1) div 2 \<le> 2 ^ m" by simp
  with Suc.IH show ?case by (subst ceil_log2.simps) simp
qed

lemma ceil_log2_pos: "2 \<le> n \<Longrightarrow> 1 \<le> ceil_log2 n"
  by (subst ceil_log2.simps) simp

lemma ceil_log2_u32: "ceil_log2 (unat (n :: u32)) \<le> 32"
proof -
  have "unat n < 2 ^ LENGTH(32)" by (rule unsigned_less)
  then show ?thesis by (intro ceil_log2_le) simp
qed

lemma masked_byte_dvd: "k \<le> 8 \<Longrightarrow> 2 ^ k dvd unat (x AND NOT (mask k) :: byte)"
proof -
  have "take_bit k (x AND NOT (mask k)) = 0" by (rule bit_eqI) (auto simp: bit_simps)
  then have "take_bit k (unat (x AND NOT (mask k))) = 0"
    by (metis unsigned_0 unsigned_take_bit_eq)
  then show ?thesis by (simp add: take_bit_eq_mod mod_eq_0_iff_dvd)
qed

lemma masked_dvd:
  "n \<le> 8 * length b \<Longrightarrow> 2 ^ (8 * length b - n) dvd be_nat (map2 (AND) b (mask_bytes n (length b)))"
proof (induction b arbitrary: n)
  case (Cons x xs)
  let ?rest = "map2 (AND) xs (mask_bytes (n - 8) (length xs))"
  have len: "length ?rest = length xs" by simp
  show ?case
  proof (cases "8 \<le> n")
    case True
    then have j: "8 * length (x # xs) - n = 8 * length xs - (n - 8)" by simp
    have "2 ^ (8 * length xs - (n - 8)) dvd be_nat ?rest" using Cons by simp
    moreover have "(2 :: nat) ^ (8 * length xs - (n - 8)) dvd 256 ^ length xs"
      unfolding pow256 by (rule le_imp_power_dvd) simp
    ultimately show ?thesis unfolding j by (simp add: len)
  next
    case False
    have zero: "be_nat (replicate l 0) = 0" for l by (induction l) simp_all
    have "?rest = replicate (length xs) 0" using False and_mask_bytes_0 [of xs "length xs"] by simp
    then have "be_nat (map2 (AND) (x # xs) (mask_bytes n (length (x # xs)))) =
        unat (x AND NOT (mask (8 - n))) * 2 ^ (8 * length xs)"
      using False by (simp add: mask_byte_def zero pow256)
    moreover have "8 * length (x # xs) - n = (8 - n) + 8 * length xs" using False by simp
    ultimately show ?thesis using masked_byte_dvd [of "8 - n" x] by (simp add: power_add mult_dvd_mono)
  qed
qed simp

lemma poolStart_of_cases:
  "poolStart_of b mask4 = 0xC6120000 \<or>
     (\<exists>ip4. length ip4 = 4 \<and> poolStart_of b mask4 = BigEndian_Uint32 (slice (IP_Mask ip4 (slice (CIDRMask mask4 32)))))"
proof -
  have f: "push_bit 24 198 OR push_bit 16 18 = (0xC6120000 :: u32)" by simp
  define po where "po = ParseIP ((if b = [] then ''198.18'' else b) @
    concat (replicate (4 - length (Split (if b = [] then ''198.18'' else b) CHR ''.'')) ''.0''))"
  have "poolStart_of b mask4 = (let st = (case po of None \<Rightarrow> 0
                | Some ip \<Rightarrow> (case To4 ip of None \<Rightarrow> 0
                  | Some ip4 \<Rightarrow> BigEndian_Uint32 (slice (IP_Mask ip4 (slice (CIDRMask mask4 32))))))
      in if st = 0 then 0xC6120000 else st)"
    unfolding poolStart_of_def po_def Let_def f ..
  then show ?thesis by (cases po) (auto simp: Let_def dest: To4_To16(2) split: option.splits if_splits)
qed

lemma poolStart_of_dvd:
  assumes "k \<le> 32" "k \<le> 17 \<or> poolStart_of b (32 - int k) \<noteq> 0xC6120000"
  shows "2 ^ k dvd unat (poolStart_of b (32 - int k))"
proof -
  let ?start = "poolStart_of b (32 - int k)"
  have m: "slice (CIDRMask (32 - int k) 32) = mask_bytes (32 - k) 4"
    using CIDRMask_bytes(1) [of "32 - k"] assms(1) by (simp add: slice_def of_nat_diff)
  consider "?start = 0xC6120000"
    | ip4 where "length ip4 = 4" "?start = BigEndian_Uint32 (slice (IP_Mask ip4 (mask_bytes (32 - k) 4)))"
    using poolStart_of_cases [of b "32 - int k"] unfolding m by blast
  then show ?thesis
  proof cases
    case 1
    then have "2 ^ 17 dvd unat ?start" by simp
    moreover have "k \<le> 17" using 1 assms(2) by blast
    ultimately show ?thesis using le_imp_power_dvd [of k 17 "2 :: nat"] dvd_trans by blast
  next
    case 2
    let ?b = "map2 (AND) ip4 (mask_bytes (32 - k) 4)"
    have "slice (IP_Mask ip4 (mask_bytes (32 - k) 4)) = ?b" using 2(1) by (simp add: IP_Mask_def slice_def)
    then have "unat ?start = be_nat ?b" using 2 be_nat_Uint32 [of ?b] by simp
    then show ?thesis using masked_dvd [of "32 - k" ip4] 2(1) assms(1) by simp
  qed
qed

lemma poolStart6_of_masked:
  assumes "k \<le> 32"
  obtains st where "length st = 16" "poolStart6_of b (128 - int k) = map2 (AND) st (mask_bytes (128 - k) 16)"
proof -
  have m: "slice (CIDRMask (128 - int k) 128) = mask_bytes (128 - k) 16"
    using CIDRMask_bytes(2) [of "128 - k"] assms by (simp add: slice_def of_nat_diff)
  define st where "st = (case Option.bind (ParseIP (if b = [] then ''fd00:18::'' else b)) To16 of
      Some b \<Rightarrow> b | None \<Rightarrow> (replicate 16 0)[0 := 0xfd, 1 := 0x00, 3 := 0x18])"
  have len: "length st = 16" unfolding st_def by (auto split: option.splits bind_splits dest: To16_length)
  have "poolStart6_of b (128 - int k) = slice (IP_Mask st (mask_bytes (128 - k) 16))"
    unfolding poolStart6_of_def st_def Let_def m ..
  with len show ?thesis by (intro that [of st]) (simp_all add: IP_Mask_def slice_def)
qed

lemma New_aligned4:
  assumes p: "p = NewIPPoolWithConfig b4 b6 cfg"
    and fallback: "unat (poolSize p) \<le> 2 ^ 17 \<or> poolStart p \<noteq> 0xC6120000"
  shows "aligned4 (ceil_log2 (unat (poolSize p))) p"
proof -
  let ?k = "ceil_log2 (unat (poolSize p))"
  have start: "poolStart p = poolStart_of b4 (32 - int ?k)" "cidrMask p = 32 - int ?k" "poolSize p \<noteq> 0"
    by (simp_all add: p NewIPPoolWithConfig_def Let_def DefaultPoolSizeV4_def)
  have "2 ^ ?k dvd unat (poolStart p)"
    unfolding start(1) using fallback start(1) ceil_log2_le [of "unat (poolSize p)" 17]
    by (intro poolStart_of_dvd ceil_log2_u32) auto
  then show ?thesis using start(2,3) ceil_log2_bound ceil_log2_u32 by (simp add: aligned4_def)
qed

lemma New_aligned6:
  assumes p: "p = NewIPPoolWithConfig b4 b6 cfg" and n4: "To4 (poolStart6 p) = None"
  shows "aligned6 (ceil_log2 (unat (poolSize6 p))) p"
proof -
  let ?k = "ceil_log2 (unat (poolSize6 p))" and ?s = "poolStart6 p"
  have start: "?s = poolStart6_of b6 (128 - int ?k)" "cidrMask6 p = 128 - int ?k" "poolSize6 p \<noteq> 0"
    by (simp_all add: p NewIPPoolWithConfig_def Let_def DefaultPoolSizeV6_def)
  obtain st where st: "length st = 16" "?s = map2 (AND) st (mask_bytes (128 - ?k) 16)"
    using poolStart6_of_masked [OF ceil_log2_u32 [of "poolSize6 p"], of b6] start(1) by metis
  then have len: "length ?s = 16" by simp
  have k: "?k \<le> 32" by (rule ceil_log2_u32)
  then have d: "2 ^ ?k dvd be_nat ?s" using masked_dvd [of "128 - ?k" st] st by simp
  have "be_nat ?s = be_nat (take 12 ?s) * 2 ^ 32 + unat (BigEndian_Uint32 (drop 12 ?s))"
    using be_nat_append [of "take 12 ?s" "drop 12 ?s"] len by (simp add: be_nat_Uint32)
  moreover have "(2 :: nat) ^ ?k dvd 2 ^ 32" using k by (rule le_imp_power_dvd)
  ultimately have "2 ^ ?k dvd unat (BigEndian_Uint32 (drop 12 ?s))" using d by (metis dvd_add_right_iff dvd_mult)
  then show ?thesis using start(2,3) len n4 k ceil_log2_bound by (simp add: aligned6_def)
qed

lemma same_config_aligned:
  "same_config p q \<Longrightarrow> aligned4 k q = aligned4 k p" "same_config p q \<Longrightarrow> aligned6 k q = aligned6 k p"
  "same_config p q \<Longrightarrow> poolNet4 q = poolNet4 p" "same_config p q \<Longrightarrow> poolNet6 q = poolNet6 p"
  by (simp_all add: same_config_def aligned4_def aligned6_def poolNet4_def poolNet6_def GetPoolNet_def GetPoolNet6_def)

lemma chooseFake_in_net:
  assumes "aligned4 k4 p" "1 \<le> k4" "aligned6 k6 p" "chooseFake realIP v6flag p = Some ip"
  shows "\<exists>n. (if v6flag then poolNet6 p else poolNet4 p) = Some n \<and> IPNet_Contains n ip \<and>
    (\<not> v6flag \<longrightarrow> last ip \<noteq> 0 \<and> last ip \<noteq> 255)"
proof (cases v6flag)
  case True
  let ?b = "poolStart6 p"
  have k: "128 - (128 - k6) = k6" and len: "length ?b = 16" "To4 ?b = None"
    using assms(3) by (auto simp: aligned6_def)
  have "chooseFake realIP True p = Some ip" using assms(4) True by simp
  note r = chooseFake6_range [OF assms(3) this]
  show ?thesis using True GetPoolNet6_parse [OF assms(3)] Contains6 [OF len, of "128 - k6" ip] r by (simp add: k)
next
  case False
  have "chooseFake realIP False p = Some ip" using assms(4) False by simp
  from chooseFake4_range [OF assms(1,2) this] obtain c where c: "ip = u32_IPv4 c" "c mod 256 \<noteq> 0" "c mod 256 \<noteq> 255"
    "unat c div 2 ^ k4 = unat (poolStart p) div 2 ^ k4" .
  obtain n where n: "poolNet4 p = Some n" using GetPoolNet_parse [OF assms(1)] by blast
  have "last ip = ucast c" by (simp add: c(1) u32_IPv4_def IPv4_def)
  moreover have "unat (ucast c :: byte) = unat c mod 256" using unat_ucast_drop_bit [of 0 c] by simp
  ultimately have "last ip \<noteq> 0 \<and> last ip \<noteq> 255"
    using c(2,3) mod256_unat [of 0 c] mod256_unat [of 255 c] by (auto simp: word_unat_eq_iff)
  then show ?thesis using False n Contains_poolNet4 [OF assms(1) n, of c] c(1,4) by simp
qed

text \<open>C4: in every state of a pool, every address the allocator chooses lies in the prefix the pool advertises,
  for both families, and an IPv4 address never ends in 0 or 255. The constructor must have been given at least
  two IPv4 addresses, an IPv6 base that is not an IPv4-mapped address, and an IPv4 base that parses, or a size up to
  the default when the built-in base 198.18.0.0 is used.\<close>

theorem allocated_in_subnet:
  assumes new: "p0 = NewIPPoolWithConfig b4 b6 cfg" and run: "pool_move\<^sup>*\<^sup>* p0 p"
    and size: "2 \<le> unat (poolSize p0)" "unat (poolSize p0) \<le> 2 ^ 17 \<or> poolStart p0 \<noteq> 0xC6120000"
    and base6: "To4 (poolStart6 p0) = None" and ch: "chooseFake realIP v6flag p = Some ip"
  shows "\<exists>n. (if v6flag then poolNet6 p0 else poolNet4 p0) = Some n \<and> IPNet_Contains n ip \<and>
    (\<not> v6flag \<longrightarrow> last ip \<noteq> 0 \<and> last ip \<noteq> 255)"
proof -
  note same = same_config_aligned [OF moves_config [OF run]]
  have "aligned4 (ceil_log2 (unat (poolSize p0))) p" "aligned6 (ceil_log2 (unat (poolSize6 p0))) p"
    unfolding same using New_aligned4 [OF new size(2)] New_aligned6 [OF new base6] .
  from chooseFake_in_net [OF this(1) ceil_log2_pos [OF size(1)] this(2) ch] show ?thesis unfolding same .
qed

text \<open>A pool with the built-in IPv4 base and an IPv6 base given by its text.\<close>

definition sampleBase6 :: IP where
  "sampleBase6 = [0xfd, 0, 0, 0x18, 0, 0, 0, 0, 0, 0, 0, 0, 0, 0, 0, 0]"

definition samplePool :: IPPool where
  "samplePool = NewIPPool [] (IP_String sampleBase6)"

lemma masked_hd_not_v4:
  "length st = 16 \<Longrightarrow> hd st \<noteq> 0 \<Longrightarrow> 8 \<le> n \<Longrightarrow> To4 (map2 (AND) st (mask_bytes n 16)) = None"
  by (cases st) (auto simp: To4_def v4InV6Prefix_def and_mask_byte_full numeral_eq_Suc)

lemma samplePool_base:
  "poolSize samplePool = 131072" "To4 (poolStart6 samplePool) = None"
proof -
  show "poolSize samplePool = 131072"
    by (simp add: samplePool_def NewIPPool_def NewIPPoolWithConfig_def Let_def DefaultPoolSizeV4_def)
  let ?k = "ceil_log2 1048576" and ?s = "IP_String sampleBase6"
  have k: "?k \<le> 20" by (rule ceil_log2_le) simp
  have "ParseIP ?s = Some sampleBase6" "?s \<noteq> []"
    using ParseIP_String [of sampleBase6] by (auto simp: sampleBase6_def To16_def IP_String_def ParseIP_def)
  moreover have "To16 sampleBase6 = Some sampleBase6" by (simp add: sampleBase6_def To16_def)
  moreover have "slice (CIDRMask (128 - int ?k) 128) = mask_bytes (128 - ?k) 16"
    using CIDRMask_bytes(2) [of "128 - ?k"] k by (simp add: slice_def of_nat_diff)
  ultimately have "poolStart6 samplePool = map2 (AND) sampleBase6 (mask_bytes (128 - ?k) 16)"
    by (simp add: samplePool_def NewIPPool_def NewIPPoolWithConfig_def Let_def DefaultPoolSizeV6_def
        poolStart6_of_def IP_Mask_def slice_def) (simp add: sampleBase6_def)
  then show "To4 (poolStart6 samplePool) = None"
    using masked_hd_not_v4 [of sampleBase6 "128 - ?k"] k by (simp add: sampleBase6_def)
qed

theorem allocated_in_subnet_witness:
  "\<exists>n ip. chooseFake [1, 1, 1, 1] False samplePool = Some ip \<and> poolNet4 samplePool = Some n \<and>
     IPNet_Contains n ip \<and> last ip \<noteq> 0"
proof -
  obtain ip where ip: "chooseFake [1, 1, 1, 1] False samplePool = Some ip"
    by (simp add: chooseFake_def Let_def samplePool_def NewIPPool_def)
  from allocated_in_subnet [OF samplePool_def [unfolded NewIPPool_def] rtranclp.rtrancl_refl _ _ samplePool_base(2) ip]
    ip samplePool_base(1)
  show ?thesis by auto
qed

end
