(* ===== verification/PoolMerge.thy ===== *)
theory PoolMerge
  imports PoolSpec
begin

text \<open>
  Mappings are replicated between nodes by delivering them to \<^verbatim>\<open>AddMapping\<close>. Seen per fake address,
  a pool is a table of registers that hold the owner with the largest version; delivery merges
  an update into a register. Nodes that have received the same set of updates agree on all
  registers, provided that no real address is announced under two fake addresses. Without this
  condition the outcome depends on the order of delivery.
\<close>

subsection \<open>Registers\<close>

type_synonym registers = "IPKey \<rightharpoonup> u64 \<times> IPKey"

definition registers_of :: "IPPool \<Rightarrow> registers" where
  "registers_of p f = map_option (\<lambda>r. (the (globalVersions p f), r)) (globalFakeToReal p f)"

text \<open>An update: real address, fake address, version.\<close>

type_synonym update = "IPKey \<times> IPKey \<times> u64"

fun merge_update :: "update \<Rightarrow> registers \<Rightarrow> registers" where
  "merge_update (r, f, v) F =
     (case F f of None \<Rightarrow> F(f \<mapsto> (v, r))
      | Some (w, r') \<Rightarrow> if loses v r w r' then F else F(f \<mapsto> (v, r)))"

fun wf_update :: "update \<Rightarrow> bool" where
  "wf_update (r, f, v) = wf_key r"

definition wf_registers :: "registers \<Rightarrow> bool" where
  "wf_registers F \<longleftrightarrow> (\<forall>f v r. F f = Some (v, r) \<longrightarrow> wf_key r)"

lemma loses_total: "loses v k w k' \<or> loses w k' v k"
  by (auto simp: loses_def)

lemma loses_antisym: "loses v k w k' \<Longrightarrow> loses w k' v k \<Longrightarrow> wf_key k \<Longrightarrow> wf_key k' \<Longrightarrow> v = w \<and> k = k'"
  by (auto simp: loses_def) (metis ToIPKey_ToIP order_antisym)

lemma loses_refl [simp]: "loses v k v k"
  by (simp add: loses_def)

lemma loses_trans: "loses v k w k' \<Longrightarrow> loses w k' x k'' \<Longrightarrow> loses v k x k''"
  by (auto simp: loses_def)

interpretation replicas: commuting_ops merge_update wf_update wf_registers
proof (unfold_locales, goal_cases)
  case (1 s u)
  then show ?case by (cases u) (auto simp: wf_registers_def split: option.splits if_splits)
next
  case (2 s u v)
  obtain r f x r' f' x' where uv: "u = (r, f, x)" "v = (r', f', x')" by (metis prod.exhaust)
  show ?case
  proof (cases "f = f'")
    case False
    then show ?thesis by (auto simp: uv fun_upd_twist split: option.splits)
  next
    case True
    have wf: "wf_key r" "wf_key r'" using 2 uv by simp_all
    show ?thesis
    proof (cases "s f'")
      case None
      then show ?thesis using loses_total [of x r x' r'] loses_antisym [of x r x' r'] wf by (auto simp: uv True)
    next
      case (Some c)
      obtain w k where c: "c = (w, k)" by fastforce
      show ?thesis using Some loses_total [of x r x' r'] loses_antisym [of x r x' r'] wf
          loses_trans [of x r x' r' w k] loses_trans [of x' r' x r w k]
        by (auto simp: uv True c)
    qed
  qed
next
  case (3 s u)
  then show ?case by (cases u) (auto split: option.splits)
qed

subsection \<open>Delivery to a pool\<close>

text \<open>A message: real address, fake address, version and the expiry time the receiver computes.\<close>

type_synonym message = "IP \<times> IP \<times> u64 \<times> int"

fun deliver :: "message \<Rightarrow> IPPool \<Rightarrow> IPPool" where
  "deliver (realIP, fakeIP, ver, e) p = snd (AddMapping realIP fakeIP ver e p)"

fun update_of :: "message \<Rightarrow> update" where
  "update_of (realIP, fakeIP, ver, e) = (ToIPKey realIP, ToIPKey fakeIP, ver)"

text \<open>Every real address has at most one fake address, given by \<open>h\<close>, in the pool and in the messages.\<close>

definition homed :: "(IPKey \<Rightarrow> IPKey) \<Rightarrow> IPPool \<Rightarrow> bool" where
  "homed h p \<longleftrightarrow> (\<forall>r f. fakeOf p r = Some f \<longrightarrow> f = h r)"

fun homed_message :: "(IPKey \<Rightarrow> IPKey) \<Rightarrow> message \<Rightarrow> bool" where
  "homed_message h (realIP, fakeIP, ver, e) \<longleftrightarrow> valid_IP realIP \<and> ToIPKey fakeIP = h (ToIPKey realIP)"

lemma deliver_inv:
  "pool_inv p \<Longrightarrow> homed_message h m \<Longrightarrow> pool_inv (deliver m p)"
  using pool_moves.run_inv [OF AddMapping_moves] by (cases m) auto

lemma homed_leases: "homed h p \<longleftrightarrow> (\<forall>r l. leases_of p r = Some l \<longrightarrow> ls_fake l = h r)"
  unfolding homed_def leases_of_fake [symmetric] by (auto simp del: leases_of_fake)

lemma deliver_leases:
  "pool_inv p \<Longrightarrow> valid_IP realIP \<Longrightarrow>
     leases_of (deliver (realIP, fakeIP, ver, e) p) = snd (spec_add (ToIPKey realIP) (ToIPKey fakeIP) ver e (leases_of p))"
  using AddMapping_leases [of p realIP fakeIP ver e] by (metis deliver.simps map_prod_def snd_map_prod)

lemma deliver_homed:
  assumes "pool_inv p" "homed h p" "homed_message h m"
  shows "homed h (deliver m p)"
  using assms deliver_leases
  by (cases m) (auto simp: homed_leases spec_add_def spec_release_alt split: if_splits)

lemma registers_of_wf: "pool_inv p \<Longrightarrow> wf_registers (registers_of p)"
  by (auto simp: wf_registers_def registers_of_def dest: pool_inv_wf)

lemma addBlocked_registers:
  assumes inv: "pool_inv p" and wf: "wf_key r" "wf_key f" and home: "\<And>g. fakeOf p r = Some g \<Longrightarrow> g = f"
  shows "addBlocked p r f v \<longleftrightarrow> (\<exists>w r'. registers_of p f = Some (w, r') \<and> loses v r w r')"
proof -
  have "addBlocked p r f v \<longleftrightarrow> (\<exists>r'. fakeOf p r' = Some f \<and> loses v r (the (globalVersions p f)) r')"
    using home by (auto simp: addBlocked_spec [OF inv wf] spec_blocked_leases)
  then show ?thesis using pool_inv_bij [OF inv, of _ f] by (auto simp: registers_of_def)
qed

lemma registers_frame: "registers_of (p\<lparr>ctr := c\<rparr>) = registers_of p"
  by (simp add: fun_eq_iff registers_of_def)

lemma registers_bind: "registers_of (bind_pair r f v e (evictFake f p)) = (registers_of p)(f \<mapsto> (v, r))"
proof
  fix g
  have "globalFakeToReal (evictFake f p) g = globalFakeToReal p g" "globalVersions (evictFake f p) g = globalVersions p g"
    if "g \<noteq> f" using that by (simp_all add: evictFake_def pool_simps split: option.splits)
  then show "registers_of (bind_pair r f v e (evictFake f p)) g = ((registers_of p)(f \<mapsto> (v, r))) g"
    by (simp add: registers_of_def pool_simps)
qed

lemma deliver_registers:
  assumes inv: "pool_inv p" and home: "homed h p" and m: "homed_message h m"
  shows "registers_of (deliver m p) = merge_update (update_of m) (registers_of p)"
proof -
  obtain realIP fakeIP ver e where [simp]: "m = (realIP, fakeIP, ver, e)" by (metis prod.exhaust)
  let ?r = "ToIPKey realIP" and ?f = "ToIPKey fakeIP"
  have vr: "valid_IP realIP" and f: "?f = h ?r" using m by auto
  have r: "fakeOf p ?r = Some g \<Longrightarrow> g = ?f" for g using home f by (simp add: homed_def)
  have free: "fakeOf (evictFake ?f p) ?r = None"
  proof (cases "globalFakeToReal p ?f")
    case None
    then show ?thesis using r pool_inv_bij [OF inv, of ?r ?f]
      by (cases "fakeOf p ?r") (auto simp: evictFake_def)
  next
    case (Some er)
    then have "fakeOf p ?r = Some g \<Longrightarrow> er = ?r" for g using r pool_inv_bij [OF inv, of ?r ?f] by auto
    with Some pool_inv_length [OF inv] show ?thesis
      by (cases "fakeOf p ?r") (auto simp: evictFake_def pool_simps)
  qed
  have ev: "evictReal ?r (evictFake ?f p) = evictFake ?f p" using free by (simp add: evictReal_def)
  have reg: "registers_of ((bind_pair ?r ?f ver e (evictReal ?r (evictFake ?f p)))\<lparr>ctr := c\<rparr>) =
      (registers_of p)(?f \<mapsto> (ver, ?r))" for c
    unfolding ev registers_frame by (rule registers_bind)
  have "merge_update (?r, ?f, ver) (registers_of p) =
      (if addBlocked p ?r ?f ver then registers_of p else (registers_of p)(?f \<mapsto> (ver, ?r)))"
    using addBlocked_registers [OF inv _ _ r] by (auto split: option.splits)
  moreover obtain c where "AddMapping realIP fakeIP ver e p =
      (if addBlocked p ?r ?f ver then (False, p\<lparr>ctr := c\<rparr>)
       else (True, (bind_pair ?r ?f ver e (evictReal ?r (evictFake ?f p)))\<lparr>ctr := c\<rparr>))"
    using AddMapping_cases [OF inv vr, of fakeIP ver e] by blast
  ultimately show ?thesis using reg [of c] registers_frame by (simp del: merge_update.simps)
qed

lemma deliver_all:
  assumes "pool_inv p" "homed h p" "\<forall>m\<in>set ms. homed_message h m"
  shows "registers_of (fold deliver ms p) = fold merge_update (map update_of ms) (registers_of p)"
  using assms
proof (induction ms arbitrary: p)
  case (Cons m ms)
  have m: "homed_message h m" and ms: "\<forall>m\<in>set ms. homed_message h m" using Cons.prems(3) by simp_all
  from Cons.IH [OF deliver_inv [OF Cons.prems(1) m] deliver_homed [OF Cons.prems(1,2) m] ms]
  show ?case using deliver_registers [OF Cons.prems(1,2) m] by simp
qed simp

lemma wf_update_of: "wf_update (update_of m)"
  by (cases m) simp

text \<open>C8: replicas converge. Two nodes whose registers agree and that receive the same set of updates, in any
  order and any number of times, agree on the owner and the version of every fake address, when each
  real address is announced under one fake address only.\<close>

theorem replicas_converge:
  assumes "pool_inv p" "homed h p" "pool_inv q" "homed h q" "registers_of p = registers_of q"
    and "\<forall>m\<in>set ms \<union> set ns. homed_message h m" "update_of ` set ms = update_of ` set ns"
  shows "registers_of (fold deliver ms p) = registers_of (fold deliver ns q)"
proof -
  have ok: "wf_update u" if "u \<in> set (map update_of ms)" for u using that wf_update_of by auto
  have "fold merge_update (map update_of ms) (registers_of p) = fold merge_update (map update_of ns) (registers_of p)"
    using assms(7) by (intro replicas.converges registers_of_wf assms(1) ok) auto
  then show ?thesis using assms deliver_all [of p h ms] deliver_all [of q h ns] by simp
qed

theorem replicas_converge_witness:
  "registers_of (fold deliver [([1, 1, 1, 1], [198, 18, 0, 1], 1, 5), ([2, 2, 2, 2], [198, 18, 0, 1], 2, 6)] (NewIPPool [] [])) =
   registers_of (fold deliver [([2, 2, 2, 2], [198, 18, 0, 1], 2, 7), ([1, 1, 1, 1], [198, 18, 0, 1], 1, 8),
     ([2, 2, 2, 2], [198, 18, 0, 1], 2, 9)] (NewIPPool [] []))"
proof -
  let ?p = "NewIPPool [] []" and ?h = "\<lambda>_ :: IPKey. ToIPKey [198, 18, 0, 1]"
  have p: "pool_inv ?p" "homed ?h ?p" by (simp_all add: NewIPPool_def pool_inv_New homed_def)
  show ?thesis by (rule replicas_converge [OF p p refl]) auto
qed

subsection \<open>Delivery order matters in general\<close>

lemma deliver_unblocked:
  assumes "pool_inv p" "valid_IP realIP" "\<not> spec_blocked (leases_of p) (ToIPKey realIP) (ToIPKey fakeIP) ver"
  shows "leases_of (deliver (realIP, fakeIP, ver, e) p) = (spec_release (ToIPKey fakeIP) (leases_of p))
    (ToIPKey realIP \<mapsto> \<lparr>ls_fake = ToIPKey fakeIP, ls_ver = ver, ls_expires = e\<rparr>)"
  using assms by (simp add: deliver_leases spec_add_def del: deliver.simps)

lemma deliver_blocked:
  assumes "pool_inv p" "valid_IP realIP" "spec_blocked (leases_of p) (ToIPKey realIP) (ToIPKey fakeIP) ver"
  shows "leases_of (deliver (realIP, fakeIP, ver, e) p) = leases_of p"
  using assms by (simp add: deliver_leases spec_add_def del: deliver.simps)

text \<open>C9: when a real address is announced under two fake addresses, the outcome depends on the order of
  delivery. Node A receives the three updates in the order of their versions and ends without a mapping for
  1.1.1.1; node B receives the newest update first, rejects the second update as stale, and keeps 1.1.1.1.\<close>

theorem delivery_order_matters:
  fixes e :: int
  defines "m1 \<equiv> ([1, 1, 1, 1], [198, 18, 0, 1], 1, e)" and "m2 \<equiv> ([2, 2, 2, 2], [198, 18, 0, 1], 2, e)"
    and "m3 \<equiv> ([2, 2, 2, 2], [198, 18, 0, 2], 3, e)" and "p \<equiv> NewIPPool [] []"
  shows "fakeOf (fold deliver [m1, m2, m3] p) (ToIPKey [1, 1, 1, 1]) = None \<and>
    fakeOf (fold deliver [m3, m1, m2] p) (ToIPKey [1, 1, 1, 1]) = Some (ToIPKey [198, 18, 0, 1])"
proof -
  let ?r1 = "ToIPKey [1, 1, 1, 1]" and ?r2 = "ToIPKey [2, 2, 2, 2]"
    and ?f1 = "ToIPKey [198, 18, 0, 1]" and ?f2 = "ToIPKey [198, 18, 0, 2]"
  have neq: "?r1 \<noteq> ?r2" "?r2 \<noteq> ?r1" "?f1 \<noteq> ?f2" "?f2 \<noteq> ?f1" by (simp_all add: ToIPKey_eq_iff To16_def)
  have inv: "pool_inv q \<Longrightarrow> pool_inv (deliver m q)" if "valid_IP (fst m)" for m q
    using that pool_moves.run_inv [OF AddMapping_moves] by (cases m) auto
  have p: "pool_inv p" "leases_of p = Map.empty" by (simp_all add: p_def NewIPPool_def pool_inv_New)
  note sp = spec_blocked_def spec_release_def loses_def neq
  have vs: "valid_IP (fst m1)" "valid_IP (fst m2)" "valid_IP (fst m3)" by (simp_all add: m1_def m2_def m3_def)
  note invs = inv [OF vs(1) p(1)] inv [OF vs(2) inv [OF vs(1) p(1)]] inv [OF vs(3) p(1)] inv [OF vs(1) inv [OF vs(3) p(1)]]
  let ?l = "\<lambda>f v. \<lparr>ls_fake = f, ls_ver = v, ls_expires = e\<rparr>"
  have "leases_of (deliver m1 p) = [?r1 \<mapsto> ?l ?f1 1]"
    unfolding m1_def using p by (subst deliver_unblocked) (simp_all add: sp fun_eq_iff)
  then have "leases_of (deliver m2 (deliver m1 p)) = [?r2 \<mapsto> ?l ?f1 2]"
    unfolding m2_def using invs by (subst deliver_unblocked) (simp_all add: sp fun_eq_iff)
  then have "leases_of (deliver m3 (deliver m2 (deliver m1 p))) = [?r2 \<mapsto> ?l ?f2 3]"
    unfolding m3_def using invs by (subst deliver_unblocked) (simp_all add: sp fun_eq_iff)
  then have a: "map_option ls_fake (leases_of (fold deliver [m1, m2, m3] p) ?r1) = None" using neq by simp
  have "leases_of (deliver m3 p) = [?r2 \<mapsto> ?l ?f2 3]"
    unfolding m3_def using p by (subst deliver_unblocked) (simp_all add: sp fun_eq_iff)
  then have "leases_of (deliver m1 (deliver m3 p)) = [?r2 \<mapsto> ?l ?f2 3, ?r1 \<mapsto> ?l ?f1 1]"
    unfolding m1_def using invs by (subst deliver_unblocked) (simp_all add: sp fun_eq_iff)
  then have "leases_of (deliver m2 (deliver m1 (deliver m3 p))) = [?r2 \<mapsto> ?l ?f2 3, ?r1 \<mapsto> ?l ?f1 1]"
    unfolding m2_def using invs by (subst deliver_blocked) (simp_all add: sp)
  then have b: "map_option ls_fake (leases_of (fold deliver [m3, m1, m2] p) ?r1) = Some ?f1" by simp
  from a b show ?thesis by simp
qed

end
