(* ===== verification/PoolSteps.thy ===== *)
theory PoolSteps
  imports PoolBatch
begin

text \<open>
  The pool under concurrent use. DNS handlers, peer connections, the kernel-state importer and the
  pruning worker call the pool from their own goroutines. Every change of the maps happens in a
  section that holds the global lock (and the lock of the shard it writes), and every change of the
  clock in a section that holds the clock lock, so an execution is a sequence of such sections of
  any number of goroutines in any order. What a goroutine computed before it entered a section (the
  pairs the pruning worker collected, the mappings a failed batch rolls back) is arbitrary here.
\<close>

subsection \<open>Definitions\<close>

inductive pool_step :: "IPPool \<Rightarrow> IPPool \<Rightarrow> bool" where
  step_add: "valid_IP realIP \<Longrightarrow> pool_step p (snd (AddMapping realIP fakeIP ver e p))"
| step_remove: "valid_IP realIP \<Longrightarrow> pool_step p (RemoveMapping realIP fakeIP p)"
| step_reserve: "valid_IP realIP \<Longrightarrow> pool_step p (snd (TryReserve realIP fakeIP ver e now1 now2 p))"
| step_prune: "i < 64 \<Longrightarrow> pool_step p (prune_delete now i pairs p)"
| step_alloc: "valid_IP realIP \<Longrightarrow> pool_step p (snd (alloc_locked v6flag now clk realIP p))"
| step_version: "pool_step p (snd (GetNextVersion clk p))"
| step_observe: "pool_step p (ObserveVersion clk ver p)"
| step_exhausted: "pool_step p (incExhaustions p)"
| step_allocated: "pool_step p (addAllocations n p)"
| step_close: "Close p = Some q \<Longrightarrow> pool_step p q"

inductive_cases pool_stepE: "pool_step p q"

subsection \<open>The invariant under any interleaving\<close>

lemma pool_step_moves: "pool_step p q \<Longrightarrow> pool_inv p \<Longrightarrow> pool_move\<^sup>*\<^sup>* p q"
proof (induction rule: pool_step.induct)
  case (step_version p clk)
  then show ?case using move_hlc by (auto simp: GetNextVersion_def Let_def)
next
  case (step_observe p clk ver)
  then show ?case using move_hlc by (auto simp: ObserveVersion_def Let_def)
next
  case (step_exhausted p)
  then show ?case using move_ctr by (auto simp: incExhaustions_def)
next
  case (step_allocated p n)
  then show ?case using move_ctr by (auto simp: addAllocations_def)
next
  case (step_close p q)
  then show ?case using move_frame [where p = p and h = "hlc p" and c = "ctr p" and b = True]
    by (auto simp: Close_def split: if_splits)
qed (simp_all add: AddMapping_moves RemoveMapping_moves TryReserve_moves prune_delete_moves alloc_locked_moves)

lemma pool_step_inv: "pool_step p q \<Longrightarrow> pool_inv p \<Longrightarrow> pool_inv q"
  using pool_step_moves pool_moves.run_inv by blast

interpretation pool_runs: invariant_system pool_step pool_inv
  by unfold_locales (rule pool_step_inv)

lemma pool_run_moves: "pool_step\<^sup>*\<^sup>* p q \<Longrightarrow> pool_inv p \<Longrightarrow> pool_move\<^sup>*\<^sup>* p q"
proof (induction rule: rtranclp_induct)
  case (step q r)
  then show ?case using pool_step_moves [of q r] pool_runs.run_inv [of p q] by (meson rtranclp_trans)
qed simp



subsection \<open>The hybrid logical clock\<close>

lemma word_less_Suc: "h \<noteq> - 1 \<Longrightarrow> h < (h :: u64) + 1"
proof -
  assume "h \<noteq> - 1"
  then have "unat h \<noteq> unat (- 1 :: u64)" by (metis word_unat_eq_iff)
  moreover have "unat (- 1 :: u64) = 2 ^ 64 - 1" by (simp add: unsigned_minus_1_eq_mask mask_eq_exp_minus_1)
  moreover have "unat h < 2 ^ LENGTH(64)" by (rule unsigned_less)
  ultimately have "unat h + unat (1 :: u64) < 2 ^ LENGTH(64)" by simp
  then have "unat (h + 1) = unat h + 1" using unat_add_lem [of h 1] by simp
  then show ?thesis by (simp add: word_less_nat_alt)
qed

lemma GetNextVersion_greater:
  "hlc p \<noteq> - 1 \<Longrightarrow> hlc p < fst (GetNextVersion clk p)"
  by (auto simp: GetNextVersion_def Let_def word_less_Suc)

lemma ObserveVersion_hlc:
  "hlc p \<le> hlc (ObserveVersion clk v p)" "v \<le> hlc (ObserveVersion clk v p)"
  by (auto simp: ObserveVersion_def Let_def)

text \<open>C10: versions respect causality. A version issued after a remote version was observed is larger than
  the remote version and than every version issued before, and it is what the clock then holds, whatever the wall
  clocks read, unless the clock has reached the largest 64-bit value.\<close>

theorem version_causality:
  assumes "hlc (ObserveVersion c1 v p) \<noteq> - 1"
  shows "v < fst (GetNextVersion c2 (ObserveVersion c1 v p)) \<and> hlc p < fst (GetNextVersion c2 (ObserveVersion c1 v p)) \<and>
    hlc (snd (GetNextVersion c2 (ObserveVersion c1 v p))) = fst (GetNextVersion c2 (ObserveVersion c1 v p))"
proof -
  let ?q = "ObserveVersion c1 v p"
  have "v \<le> hlc ?q" "hlc p \<le> hlc ?q" by (rule ObserveVersion_hlc)+
  moreover have "hlc ?q < fst (GetNextVersion c2 ?q)" using assms by (rule GetNextVersion_greater)
  ultimately show ?thesis by (auto simp: GetNextVersion_def Let_def)
qed

theorem version_causality_witness:
  "fst (GetNextVersion 3 (ObserveVersion 2 10 (NewIPPool [] []))) = 11 \<and>
   10 < fst (GetNextVersion 3 (ObserveVersion 2 10 (NewIPPool [] [])))"
proof -
  have "hlc (NewIPPool [] []) = 0" by (simp add: NewIPPool_def NewIPPoolWithConfig_def Let_def)
  then show ?thesis using version_causality [of 2 10 "NewIPPool [] []" 3]
    by (simp add: ObserveVersion_def GetNextVersion_def Let_def)
qed


end
