(* ===== verification/GoText.thy ===== *)
theory GoText
  imports GoNetText "HOL-Library.Char_ord"
begin

text \<open>
  More of Go's \<^verbatim>\<open>strings\<close>, \<^verbatim>\<open>strconv\<close>, \<^verbatim>\<open>encoding/hex\<close> and \<^verbatim>\<open>net\<close> packages, on strings as lists of
  bytes: white space trimming (with the multi-byte encodings of Unicode white space), case mapping,
  decimal numbers, and host:port pairs.
\<close>

subsection \<open>White space\<close>

text \<open>The bytes of the UTF-8 encodings of the runes for which \<^verbatim>\<open>unicode.IsSpace\<close> holds.\<close>

definition byte_str :: "nat list \<Rightarrow> string" where
  "byte_str ns = map char_of ns"

definition space_runes :: "string list" where
  "space_runes = map byte_str
     ([[9], [10], [11], [12], [13], [32], [0xC2, 0x85], [0xC2, 0xA0], [0xE1, 0x9A, 0x80],
       [0xE2, 0x80, 0xA8], [0xE2, 0x80, 0xA9], [0xE2, 0x80, 0xAF], [0xE2, 0x81, 0x9F], [0xE3, 0x80, 0x80]]
      @ map (\<lambda>i. [0xE2, 0x80, i]) [0x80..<0x8B])"

definition leading_space :: "string \<Rightarrow> nat option" where
  "leading_space s = map_option length (find (HasPrefix s) space_runes)"

definition trailing_space :: "string \<Rightarrow> nat option" where
  "trailing_space s = map_option length (find (HasSuffix s) space_runes)"

lemma space_runes_pos: "w \<in> set space_runes \<Longrightarrow> 0 < length w"
  by (auto simp: space_runes_def byte_str_def)

lemma find_SomeE: "find P xs = Some x \<Longrightarrow> P x \<and> x \<in> set xs"
  by (auto simp: find_Some_iff)

lemma leading_space_pos: "leading_space s = Some n \<Longrightarrow> 0 < n \<and> n \<le> length s"
  by (auto simp: leading_space_def HasPrefix_iff dest!: find_SomeE space_runes_pos)

lemma trailing_space_pos: "trailing_space s = Some n \<Longrightarrow> 0 < n \<and> n \<le> length s"
  by (auto simp: trailing_space_def HasSuffix_iff dest!: find_SomeE space_runes_pos)

function TrimLeftSpace :: "string \<Rightarrow> string" where
  "TrimLeftSpace s = (case leading_space s of None \<Rightarrow> s | Some n \<Rightarrow> TrimLeftSpace (drop n s))"
  by pat_completeness auto

termination
  by (relation "measure length") (auto dest!: leading_space_pos)

function TrimRightSpace :: "string \<Rightarrow> string" where
  "TrimRightSpace s =
     (case trailing_space s of None \<Rightarrow> s | Some n \<Rightarrow> TrimRightSpace (take (length s - n) s))"
  by pat_completeness auto

termination
  by (relation "measure length") (auto dest!: trailing_space_pos)

declare TrimLeftSpace.simps [simp del] TrimRightSpace.simps [simp del]

definition TrimSpace :: "string \<Rightarrow> string" where
  "TrimSpace s = TrimRightSpace (TrimLeftSpace s)"

lemma TrimSpace_Nil [simp]: "TrimSpace [] = []"
proof -
  have "TrimLeftSpace [] = []" by (induction "[] :: string" rule: TrimLeftSpace.induct) (subst TrimLeftSpace.simps, auto split: option.splits)
  moreover have "TrimRightSpace [] = []" by (induction "[] :: string" rule: TrimRightSpace.induct) (subst TrimRightSpace.simps, auto split: option.splits)
  ultimately show ?thesis by (simp add: TrimSpace_def)
qed

text \<open>Printable ASCII characters are not part of white space.\<close>

definition graphic :: "char \<Rightarrow> bool" where
  "graphic c \<longleftrightarrow> 33 \<le> ord c \<and> ord c < 127"

lemma space_runes_graphic: "w \<in> set space_runes \<Longrightarrow> \<not> graphic (hd w)"
  by (auto simp: space_runes_def byte_str_def ord_def graphic_def)

lemma no_space_runes:
  assumes "\<forall>c\<in>set d. graphic c"
  shows "leading_space d = None" "trailing_space d = None"
proof -
  have "\<not> HasPrefix d w \<and> \<not> HasSuffix d w" if w: "w \<in> set space_runes" for w
  proof -
    have "hd w \<in> set w" using space_runes_pos [OF w] by auto
    moreover have "set w \<subseteq> set d" if "HasPrefix d w \<or> HasSuffix d w"
      using that by (auto simp: HasPrefix_iff HasSuffix_iff)
    ultimately show ?thesis using space_runes_graphic [OF w] assms by blast
  qed
  then show "leading_space d = None" "trailing_space d = None"
    by (auto simp: leading_space_def trailing_space_def find_None_iff)
qed

lemma TrimSpace_graphic: "\<forall>c\<in>set d. graphic c \<Longrightarrow> TrimSpace d = d"
  by (simp add: TrimSpace_def TrimLeftSpace.simps [of d] TrimRightSpace.simps [of d] no_space_runes)

subsection \<open>Case and replacement\<close>

definition lower_ascii :: "char \<Rightarrow> char" where
  "lower_ascii c = (if 65 \<le> ord c \<and> ord c \<le> 90 then char_of (ord c + 32) else c)"

text \<open>\<^verbatim>\<open>strings.ToLower\<close>. On strings with bytes outside ASCII it applies the Unicode case tables, which are
  the parameter \<open>uni\<close>.\<close>

definition ToLower :: "(string \<Rightarrow> string) \<Rightarrow> string \<Rightarrow> string" where
  "ToLower uni s = (if \<forall>c\<in>set s. ord c < 128 then map lower_ascii s else uni s)"

text \<open>\<^verbatim>\<open>strings.ReplaceAll\<close> of a one-character string by the empty string.\<close>

definition RemoveAll :: "string \<Rightarrow> char \<Rightarrow> string" where
  "RemoveAll s c = filter (\<lambda>x. x \<noteq> c) s"

subsection \<open>Numbers\<close>

text \<open>\<^verbatim>\<open>strconv.Atoi\<close> on a 64-bit platform: the value and whether there was no error. A syntax error gives 0, a
  value out of range the nearest bound.\<close>

definition digits_val :: "string \<Rightarrow> int" where
  "digits_val ds = foldl (\<lambda>a c. a * 10 + int (digit_val c)) 0 ds"

definition Atoi :: "string \<Rightarrow> int \<times> bool" where
  "Atoi s =
     (let neg = (s \<noteq> [] \<and> hd s = CHR ''-'');
          ds = (if s \<noteq> [] \<and> (hd s = CHR ''-'' \<or> hd s = CHR ''+'') then tl s else s)
      in if ds = [] \<or> \<not> (\<forall>c\<in>set ds. is_digit c) then (0, False)
         else let v = (if neg then - digits_val ds else digits_val ds)
           in if v < - (2 ^ 63) then (- (2 ^ 63), False)
              else if 2 ^ 63 - 1 < v then (2 ^ 63 - 1, False) else (v, True))"

text \<open>\<^verbatim>\<open>hex.DecodeString\<close>.\<close>

fun hex_decode :: "string \<Rightarrow> byte list option" where
  "hex_decode [] = Some []"
| "hex_decode [c] = None"
| "hex_decode (c # d # s) =
     (if is_hex c \<and> is_hex d then map_option (\<lambda>r. of_nat (16 * hex_val c + hex_val d) # r) (hex_decode s)
      else None)"

subsection \<open>Host and port\<close>

definition LastIndexByte :: "string \<Rightarrow> char \<Rightarrow> nat option" where
  "LastIndexByte s c = (if c \<in> set s then Some (length s - 1 - the (IndexByte (rev s) c)) else None)"

definition SplitHostPort :: "string \<Rightarrow> (string \<times> string) option" where
  "SplitHostPort hostport =
     (case LastIndexByte hostport (CHR '':'') of None \<Rightarrow> None
      | Some i \<Rightarrow>
          if hd hostport = CHR ''['' then
            (case IndexByte hostport (CHR '']'') of None \<Rightarrow> None
             | Some e \<Rightarrow>
                 if e + 1 \<noteq> i then None
                 else if CHR ''['' \<in> set (drop 1 hostport) then None
                 else if CHR '']'' \<in> set (drop (e + 1) hostport) then None
                 else Some (take (e - 1) (drop 1 hostport), drop (i + 1) hostport))
          else if CHR '':'' \<in> set (take i hostport) then None
          else if CHR ''['' \<in> set hostport \<or> CHR '']'' \<in> set hostport then None
          else Some (take i hostport, drop (i + 1) hostport))"

definition JoinHostPort :: "string \<Rightarrow> string \<Rightarrow> string" where
  "JoinHostPort host port =
     (if CHR '':'' \<in> set host then ''['' @ host @ '']:'' @ port else host @ '':'' @ port)"

lemma IndexByte_append: "c \<notin> set a \<Longrightarrow> IndexByte (a @ c # b) c = Some (length a)"
  by (induction a) auto

lemma LastIndexByte_append: "c \<notin> set b \<Longrightarrow> LastIndexByte (a @ c # b) c = Some (length a)"
  using IndexByte_append [of c "rev b" "rev a"] by (simp add: LastIndexByte_def)

theorem SplitHostPort_JoinHostPort:
  assumes "CHR ''['' \<notin> set host" "CHR '']'' \<notin> set host"
    "CHR '':'' \<notin> set port" "CHR ''['' \<notin> set port" "CHR '']'' \<notin> set port"
  shows "SplitHostPort (JoinHostPort host port) = Some (host, port)"
proof (cases "CHR '':'' \<in> set host")
  case True
  have "LastIndexByte (''['' @ host @ '']:'' @ port) (CHR '':'') = Some (length host + 2)"
    using LastIndexByte_append [of "CHR '':''" port "''['' @ host @ '']''"] assms by simp
  moreover have "IndexByte (''['' @ host @ '']:'' @ port) (CHR '']'') = Some (length host + 1)"
    using IndexByte_append [of "CHR '']''" "''['' @ host" "'':'' @ port"] assms by simp
  ultimately show ?thesis using True assms by (simp add: JoinHostPort_def SplitHostPort_def)
next
  case False
  have "LastIndexByte (host @ '':'' @ port) (CHR '':'') = Some (length host)"
    using LastIndexByte_append [of "CHR '':''" port host] assms by simp
  then show ?thesis using False assms
    by (cases host) (auto simp: JoinHostPort_def SplitHostPort_def)
qed

end
