(* ===== verification/Sync.thy ===== *)
theory Sync
  imports PoolSteps PoolMerge PoolRange GoText
begin

text \<open>
  Peer synchronisation (\<^verbatim>\<open>internal/dnsengine/sync.go\<close>): the manager, its connections, the handshake with
  the tie-break between duplicate connections, and the handling of messages. The state holds the
  \<^verbatim>\<open>SafeConn\<close> objects in a store indexed by pointers, because the same connection is reached through
  the registry and through its handler. Decoding (\<^verbatim>\<open>encoding/gob\<close>) and TLS are outside: handlers take the
  decoded message, and dialling takes its outcome. Calls of the packet filter client are recorded in
  order.
\<close>

subsection \<open>Messages and connections\<close>

definition MsgTypeHandshake :: int where "MsgTypeHandshake = 0"
definition MsgTypePEX :: int where "MsgTypePEX = 1"
definition MsgTypePing :: int where "MsgTypePing = 2"
definition MsgTypeMappings :: int where "MsgTypeMappings = 3"

record SyncHandshake =
  hs_UUID :: u64
  hs_Port :: u16
  hs_PoolNet :: string
  hs_PoolNet6 :: string
  hs_SlotsPerDomain :: u32
  hs_ResultHash :: string
  hs_AuthToken :: string

record SyncMessage =
  msg_Type :: int
  msg_Handshake :: "SyncHandshake option"
  msg_PEXIP :: IP
  msg_PEXPort :: u16
  msg_Mappings :: "Mapping list"

definition zeroMessage :: SyncMessage where
  "zeroMessage = \<lparr>msg_Type = 0, msg_Handshake = None, msg_PEXIP = [], msg_PEXPort = 0, msg_Mappings = []\<rparr>"

text \<open>\<open>sc_writeChan\<close> is the content of the buffered channel; \<^const>\<open>None\<close> is the nil message that stops the writer.
  \<open>sc_RemoteAddr\<close> is \<^const>\<open>None\<close> when the address is not a TCP address.\<close>

record SafeConn =
  sc_writeChan :: "SyncMessage option list"
  sc_closed :: bool
  sc_peerUUID :: u64
  sc_isOutgoing :: bool
  sc_LocalAddr :: string
  sc_RemoteAddr :: "IP option"

definition chanCap :: nat where "chanCap = 1024"

definition NewSafeConn :: "string \<Rightarrow> IP option \<Rightarrow> SafeConn" where
  "NewSafeConn localAddr remoteAddr = \<lparr>sc_writeChan = [], sc_closed = False, sc_peerUUID = 0,
     sc_isOutgoing = False, sc_LocalAddr = localAddr, sc_RemoteAddr = remoteAddr\<rparr>"

text \<open>A send in a \<^verbatim>\<open>select\<close> with a default branch.\<close>

definition trySend :: "SyncMessage option \<Rightarrow> SafeConn \<Rightarrow> bool \<times> SafeConn" where
  "trySend m sc = (if length (sc_writeChan sc) < chanCap
     then (True, sc\<lparr>sc_writeChan := sc_writeChan sc @ [m]\<rparr>) else (False, sc))"

definition SafeConn_Close :: "SafeConn \<Rightarrow> SafeConn" where
  "SafeConn_Close sc = (if sc_closed sc then sc else snd (trySend None (sc\<lparr>sc_closed := True\<rparr>)))"

text \<open>The common pattern of the senders: skip a closed connection, close a connection whose queue is full.\<close>

definition sendOrClose :: "SyncMessage \<Rightarrow> SafeConn \<Rightarrow> bool \<times> SafeConn" where
  "sendOrClose m sc = (if sc_closed sc then (False, sc)
     else case trySend (Some m) sc of (True, sc') \<Rightarrow> (True, sc') | (False, sc') \<Rightarrow> (False, SafeConn_Close sc'))"

text \<open>The writer of a connection. \<open>w_wire\<close> lists the messages of completed flushes. The outcome of the encoder on
  each message and of the flush are parameters, as is the case the runtime selects.\<close>

record Writer =
  w_sc :: SafeConn
  w_wire :: "SyncMessage list"

datatype write_event = Receive | Tick

datatype drain_end = Drained | StopSignal | EncodeError

text \<open>The inner loop: takes messages until the queue is empty, a nil message or an encoding error.\<close>

fun drainQueue :: "(SyncMessage \<Rightarrow> bool) \<Rightarrow> SyncMessage option list \<Rightarrow> SyncMessage list \<Rightarrow>
    drain_end \<times> SyncMessage option list \<times> SyncMessage list" where
  "drainQueue encOk [] ms = (Drained, [], ms)"
| "drainQueue encOk (None # q) ms = (StopSignal, q, ms)"
| "drainQueue encOk (Some m # q) ms =
     (if encOk m then drainQueue encOk q (ms @ [m]) else (EncodeError, q, ms))"

text \<open>One iteration of \<^verbatim>\<open>writeLoop\<close>; the Boolean tells whether the loop goes on. A receive from an empty queue
  waits.\<close>

definition writeLoop :: "write_event \<Rightarrow> (SyncMessage \<Rightarrow> bool) \<Rightarrow> bool \<Rightarrow> Writer \<Rightarrow> bool \<times> Writer" where
  "writeLoop ev encOk flushOk w =
     (let setQueue = (\<lambda>q. w\<lparr>w_sc := (w_sc w)\<lparr>sc_writeChan := q\<rparr>\<rparr>);
          fail = (\<lambda>w. (False, w\<lparr>w_sc := SafeConn_Close (w_sc w)\<rparr>))
      in case ev of
           Receive \<Rightarrow>
             (case sc_writeChan (w_sc w) of
                [] \<Rightarrow> (True, w)
              | None # q \<Rightarrow> (False, setQueue q)
              | Some m # q \<Rightarrow>
                  if \<not> encOk m then fail (setQueue q)
                  else (case drainQueue encOk q [m] of
                      (StopSignal, q', ms) \<Rightarrow> (False, setQueue q')
                    | (EncodeError, q', ms) \<Rightarrow> fail (setQueue q')
                    | (Drained, q', ms) \<Rightarrow>
                        if flushOk then (True, (setQueue q')\<lparr>w_wire := w_wire w @ ms\<rparr>) else fail (setQueue q')))
         | Tick \<Rightarrow>
             let ping = zeroMessage\<lparr>msg_Type := MsgTypePing\<rparr>
             in if encOk ping \<and> flushOk then (True, w\<lparr>w_wire := w_wire w @ [ping]\<rparr>) else fail w)"

subsection \<open>The manager\<close>

type_synonym cid = nat

record SyncManager =
  sm_peers :: "string list"
  sm_syncPort :: string
  sm_conns :: "string \<rightharpoonup> cid"
  sm_activeDials :: "string \<rightharpoonup> int"
  sm_done :: bool
  sm_nodeUUID :: u64
  sm_poolNet :: string
  sm_poolNet6 :: string
  sm_parsedNetV4 :: "IPNet option"
  sm_parsedNetV6 :: "IPNet option"
  sm_pool :: "IPPool option"
  sm_authToken :: string
  sm_syncPortNum :: u16
  sm_certFingerprints :: "byte list list"
  sm_resultHash :: "string option"
  sm_socks :: "cid \<Rightarrow> SafeConn"
  sm_syncs :: u64
  sm_nftCalls :: "(IP \<times> IP \<times> int) list"

definition checkAuthToken :: "string \<Rightarrow> SyncManager \<Rightarrow> bool" where
  "checkAuthToken supplied s \<longleftrightarrow> sm_authToken s = [] \<or> supplied = sm_authToken s"

definition logResultHashDrift :: "string \<Rightarrow> SyncManager \<Rightarrow> bool" where
  "logResultHashDrift peerHash s \<longleftrightarrow>
     (let lc = (case sm_resultHash s of Some h \<Rightarrow> h | None \<Rightarrow> [])
      in lc \<noteq> [] \<and> peerHash \<noteq> [] \<and> lc \<noteq> peerHash)"

definition readHandshake :: "SyncMessage option \<Rightarrow> SyncHandshake option" where
  "readHandshake m = (case m of None \<Rightarrow> None
     | Some msg \<Rightarrow> if msg_Type msg \<noteq> MsgTypeHandshake then None else msg_Handshake msg)"

text \<open>The addresses of the interfaces are a parameter of \<^verbatim>\<open>getLocalIPs\<close>.\<close>

definition getLocalIPs :: "IP list \<Rightarrow> string list" where
  "getLocalIPs addrs = map (\<lambda>ip. IP_String (case To4 ip of Some ip4 \<Rightarrow> ip4 | None \<Rightarrow> ip)) addrs"

definition parsePeers :: "string \<Rightarrow> string \<Rightarrow> string list" where
  "parsePeers peersStr port =
     (if peersStr = [] then []
      else map (\<lambda>p. if CHR '':'' \<in> set p then p else p @ '':'' @ port)
        (filter (\<lambda>p. p \<noteq> []) (map TrimSpace (Split peersStr (CHR '','')))))"

definition parseFingerprints :: "string \<Rightarrow> byte list list" where
  "parseFingerprints hashStr =
     (if hashStr = [] then []
      else concat (map (\<lambda>part.
        let part = RemoveAll (TrimSpace part) (CHR '':'')
        in if part = [] then []
           else case hex_decode part of
                  Some d \<Rightarrow> if length d = 32 then [d] else []
                | None \<Rightarrow> []) (Split hashStr (CHR '',''))))"

definition RefreshResultHash :: "string \<Rightarrow> string \<Rightarrow> SyncManager \<Rightarrow> SyncManager" where
  "RefreshResultHash domainsHash ipsHash s =
     s\<lparr>sm_resultHash := Some (TrimSpace domainsHash @ '':'' @ TrimSpace ipsHash)\<rparr>"

text \<open>\<^verbatim>\<open>NewSyncManager\<close>. The token and the fingerprints come from the environment, the result hashes from files,
  and the node identifier is the time of the call.\<close>

definition NewSyncManager ::
  "string \<Rightarrow> string \<Rightarrow> string \<Rightarrow> string \<Rightarrow> IPPool option \<Rightarrow> string \<Rightarrow> string \<Rightarrow> string \<times> string \<Rightarrow> u64 \<Rightarrow> SyncManager" where
  "NewSyncManager peersStr port net4 net6 pl token fingerprints hashes now =
     RefreshResultHash (fst hashes) (snd hashes)
     \<lparr>sm_peers = parsePeers peersStr port, sm_syncPort = port, sm_conns = Map.empty, sm_activeDials = Map.empty,
      sm_done = False, sm_nodeUUID = now, sm_poolNet = net4, sm_poolNet6 = net6,
      sm_parsedNetV4 = map_option snd (ParseCIDR net4), sm_parsedNetV6 = map_option snd (ParseCIDR net6),
      sm_pool = pl, sm_authToken = token, sm_syncPortNum = word_of_int (fst (Atoi port)),
      sm_certFingerprints = parseFingerprints fingerprints, sm_resultHash = None,
      sm_socks = (\<lambda>_. NewSafeConn [] None), sm_syncs = 0, sm_nftCalls = []\<rparr>"

definition isInSubnet :: "IP option \<Rightarrow> SyncManager \<Rightarrow> bool" where
  "isInSubnet ip s =
     (case ip of None \<Rightarrow> False
      | Some ip \<Rightarrow>
          (case To4 ip of
             Some _ \<Rightarrow> (case sm_parsedNetV4 s of Some n \<Rightarrow> IPNet_Contains n ip | None \<Rightarrow> False)
           | None \<Rightarrow> (case sm_parsedNetV6 s of Some n \<Rightarrow> IPNet_Contains n ip | None \<Rightarrow> False)))"

text \<open>Access to the connection store.\<close>

definition updSock :: "cid \<Rightarrow> (SafeConn \<Rightarrow> SafeConn) \<Rightarrow> SyncManager \<Rightarrow> SyncManager" where
  "updSock c h s = s\<lparr>sm_socks := (sm_socks s)(c := h (sm_socks s c))\<rparr>"

definition closeConn :: "cid \<Rightarrow> SyncManager \<Rightarrow> SyncManager" where
  "closeConn c = updSock c SafeConn_Close"

definition sendTo :: "SyncMessage \<Rightarrow> cid \<Rightarrow> SyncManager \<Rightarrow> SyncManager" where
  "sendTo m c = updSock c (\<lambda>sc. snd (sendOrClose m sc))"

subsection \<open>Tie-break and registration\<close>

definition localCanonical :: "SafeConn \<Rightarrow> string \<Rightarrow> string" where
  "localCanonical sc port =
     JoinHostPort (case SplitHostPort (sc_LocalAddr sc) of Some (h, _) \<Rightarrow> h | None \<Rightarrow> []) port"

definition shouldKeepNewConnection :: "u64 \<Rightarrow> string \<Rightarrow> SafeConn \<Rightarrow> SafeConn \<Rightarrow> string \<Rightarrow> bool" where
  "shouldKeepNewConnection nodeUUID localSyncPort oldConn newConn remoteCanonical =
     (if sc_peerUUID newConn \<noteq> sc_peerUUID oldConn then True
      else if sc_isOutgoing newConn = sc_isOutgoing oldConn then True
      else if sc_isOutgoing newConn then
        (if nodeUUID < sc_peerUUID newConn then True
         else if nodeUUID = sc_peerUUID newConn then localCanonical newConn localSyncPort < remoteCanonical
         else False)
      else
        (if nodeUUID > sc_peerUUID newConn then True
         else if nodeUUID = sc_peerUUID newConn then localCanonical newConn localSyncPort > remoteCanonical
         else False))"

text \<open>The section under the lock that ends both halves of the handshake: \<^const>\<open>None\<close> in the result means that the
  handler returns.\<close>

definition registerConn :: "cid \<Rightarrow> string \<Rightarrow> bool \<Rightarrow> SyncManager \<Rightarrow> bool \<times> SyncManager" where
  "registerConn c selfAddr isOutgoing s =
     (if sm_done s then (False, s)
      else let install = (\<lambda>s. s\<lparr>sm_conns := (sm_conns s)(selfAddr \<mapsto> c),
                 sm_activeDials := (if isOutgoing then (sm_activeDials s)(selfAddr := None) else sm_activeDials s)\<rparr>)
        in case sm_conns s selfAddr of
             None \<Rightarrow> (True, install s)
           | Some old \<Rightarrow>
               if old = c then (True, install s)
               else if shouldKeepNewConnection (sm_nodeUUID s) (sm_syncPort s) (sm_socks s old) (sm_socks s c) selfAddr
               then (True, install (closeConn old s))
               else (False, s))"

definition ownHandshake :: "u16 \<Rightarrow> SyncManager \<Rightarrow> SyncMessage" where
  "ownHandshake port s = zeroMessage\<lparr>msg_Type := MsgTypeHandshake, msg_Handshake := Some
     \<lparr>hs_UUID = sm_nodeUUID s, hs_Port = port, hs_PoolNet = sm_poolNet s, hs_PoolNet6 = sm_poolNet6 s,
      hs_SlotsPerDomain = 0, hs_ResultHash = (case sm_resultHash s of Some h \<Rightarrow> h | None \<Rightarrow> []),
      hs_AuthToken = sm_authToken s\<rparr>\<rparr>"

definition canonicalAddr :: "IP \<Rightarrow> u16 \<Rightarrow> string" where
  "canonicalAddr remoteIP port =
     JoinHostPort (IP_String (case To4 remoteIP of Some ip4 \<Rightarrow> ip4 | None \<Rightarrow> remoteIP)) (Itoa (unat port))"

text \<open>The first half of \<^verbatim>\<open>handleConnection\<close> up to the registration. The message is what the decoder returned
  (\<^const>\<open>None\<close> for an error). The result is the canonical address of the registered peer.\<close>

definition acceptHandshake :: "cid \<Rightarrow> bool \<Rightarrow> SyncMessage option \<Rightarrow> SyncManager \<Rightarrow> string option \<times> SyncManager" where
  "acceptHandshake c isOutgoing m s =
     (case readHandshake m of None \<Rightarrow> (None, s)
      | Some h \<Rightarrow>
          if \<not> checkAuthToken (hs_AuthToken h) s then (None, s)
          else if hs_UUID h = sm_nodeUUID s then (None, s)
          else case sc_RemoteAddr (sm_socks s c) of None \<Rightarrow> (None, s)
            | Some remoteIP \<Rightarrow>
                let selfAddr = canonicalAddr remoteIP (hs_Port h);
                    mark = (\<lambda>sc. sc\<lparr>sc_peerUUID := hs_UUID h, sc_isOutgoing := isOutgoing\<rparr>);
                    register = (\<lambda>s. case registerConn c selfAddr isOutgoing (updSock c mark s) of
                      (True, s') \<Rightarrow> (Some selfAddr, s') | (False, s') \<Rightarrow> (None, s'))
                in if isOutgoing then register s
                   else if hs_PoolNet h \<noteq> sm_poolNet s \<or> hs_PoolNet6 h \<noteq> sm_poolNet6 s then (None, s)
                   else case trySend (Some (ownHandshake (sm_syncPortNum s) s)) (sm_socks s c) of
                          (False, _) \<Rightarrow> (None, s)
                        | (True, sc) \<Rightarrow> register (updSock c (\<lambda>_. sc) s))"

text \<open>A handler that returns closes its connection.\<close>

definition beginConnection :: "cid \<Rightarrow> bool \<Rightarrow> SyncMessage option \<Rightarrow> SyncManager \<Rightarrow> string option \<times> SyncManager" where
  "beginConnection c isOutgoing m s =
     (case acceptHandshake c isOutgoing m s of
        (None, s') \<Rightarrow> (None, closeConn c s') | (Some a, s') \<Rightarrow> (Some a, s'))"

definition cleanupConnection :: "cid \<Rightarrow> string \<Rightarrow> SyncManager \<Rightarrow> SyncManager" where
  "cleanupConnection c selfAddr s =
     closeConn c (if selfAddr \<noteq> [] \<and> sm_conns s selfAddr = Some c
       then s\<lparr>sm_conns := (sm_conns s)(selfAddr := None)\<rparr> else s)"

subsection \<open>Sending\<close>

definition mappingsMessage :: "Mapping list \<Rightarrow> SyncMessage" where
  "mappingsMessage ms = zeroMessage\<lparr>msg_Type := MsgTypeMappings, msg_Mappings := ms\<rparr>"

text \<open>\<open>visit\<close> lists the registered addresses in the order the runtime visits them.\<close>

definition BroadcastMappings :: "string list \<Rightarrow> Mapping list \<Rightarrow> SyncManager \<Rightarrow> SyncManager" where
  "BroadcastMappings visit mappings s =
     (if mappings = [] \<or> sm_conns s = Map.empty then s
      else fold (\<lambda>addr s. case sm_conns s addr of None \<Rightarrow> s
        | Some c \<Rightarrow> sendTo (mappingsMessage mappings) c s) visit s)"

definition sendPexMessage :: "cid \<Rightarrow> string \<Rightarrow> SyncManager \<Rightarrow> SyncManager" where
  "sendPexMessage c peerAddr s =
     (case SplitHostPort peerAddr of None \<Rightarrow> s
      | Some (host, portStr) \<Rightarrow>
          (case ParseIP host of None \<Rightarrow> s
           | Some ip \<Rightarrow>
               (case Atoi portStr of (_, False) \<Rightarrow> s
                | (port, True) \<Rightarrow> sendTo (zeroMessage\<lparr>msg_Type := MsgTypePEX, msg_PEXIP := ip,
                    msg_PEXPort := word_of_int port\<rparr>) c s)))"

text \<open>The loop of \<^verbatim>\<open>sendAllMappingsToConn\<close>, with the current batch as accumulator. The Boolean tells whether the
  final log line is reached.\<close>

fun sendBatches :: "Mapping list \<Rightarrow> Mapping list \<Rightarrow> SafeConn \<Rightarrow> bool \<times> SafeConn" where
  "sendBatches [] cur sc =
     (if cur = [] then (True, sc)
      else if sc_closed sc then (True, sc)
      else sendOrClose (mappingsMessage cur) sc)"
| "sendBatches (m # ms) cur sc =
     (if 1000 \<le> length (cur @ [m]) then
        (case sendOrClose (mappingsMessage (cur @ [m])) sc of
           (True, sc') \<Rightarrow> sendBatches ms [] sc' | (False, sc') \<Rightarrow> (False, sc'))
      else sendBatches ms (cur @ [m]) sc)"

definition sendAllMappingsToConn :: "cid \<Rightarrow> Mapping list \<Rightarrow> SyncManager \<Rightarrow> SyncManager" where
  "sendAllMappingsToConn c mappings = updSock c (\<lambda>sc. snd (sendBatches mappings [] sc))"

text \<open>What a handler sends after the registration: all mappings, the other peers to the new one, and the new one
  to the other peers. \<open>ks\<close>, \<open>visit1\<close> and \<open>visit2\<close> are iteration orders.\<close>

definition announceConnection ::
  "IPKey list \<Rightarrow> string list \<Rightarrow> string list \<Rightarrow> string list \<Rightarrow> cid \<Rightarrow> string \<Rightarrow> SyncManager \<Rightarrow> SyncManager" where
  "announceConnection ks visit1 visit2 localIPs c selfAddr s =
     (let s1 = (case sm_pool s of None \<Rightarrow> s | Some p \<Rightarrow> sendAllMappingsToConn c (GetAllMappings ks p) s);
          otherPeers = filter (\<lambda>addr. sm_conns s1 addr \<noteq> None \<and> addr \<noteq> selfAddr \<and>
            (case SplitHostPort addr of None \<Rightarrow> False | Some (host, _) \<Rightarrow> host \<notin> set localIPs)) visit1;
          s2 = fold (\<lambda>addr. sendPexMessage c addr) otherPeers s1
      in fold (\<lambda>addr s. case sm_conns s addr of None \<Rightarrow> s
           | Some o' \<Rightarrow> if addr \<noteq> selfAddr then sendPexMessage o' selfAddr s else s) visit2 s2)"

subsection \<open>Dialling\<close>

text \<open>\<^verbatim>\<open>tryConnect\<close> up to the start of the dialling goroutine; the result tells whether it is started.\<close>

definition second :: int where "second = 10 ^ 9"

definition tryConnect :: "int \<Rightarrow> string list \<Rightarrow> string \<Rightarrow> SyncManager \<Rightarrow> bool \<times> SyncManager" where
  "tryConnect now localIPs peerAddr s =
     (if sm_conns s peerAddr \<noteq> None then (False, s)
      else if (case sm_activeDials s peerAddr of None \<Rightarrow> False | Some t \<Rightarrow> now - t < 10 * second) then (False, s)
      else let s1 = s\<lparr>sm_activeDials := (sm_activeDials s)(peerAddr \<mapsto> now)\<rparr>;
               undo = s1\<lparr>sm_activeDials := (sm_activeDials s1)(peerAddr := None)\<rparr>
        in if (case SplitHostPort peerAddr of None \<Rightarrow> False | Some (host, _) \<Rightarrow> host \<in> set localIPs) then (False, undo)
           else if sm_done s1 then (False, undo)
           else (True, s1))"

text \<open>The dialling goroutine. \<open>outcome\<close> is the result of the TLS dial: the store index of the new connection with
  its addresses, or an error. The result is the connection whose handler is started.\<close>

definition dialPeer :: "string \<Rightarrow> (cid \<times> string \<times> IP option) option \<Rightarrow> SyncManager \<Rightarrow> cid option \<times> SyncManager" where
  "dialPeer peerAddr outcome s =
     (let forget = (\<lambda>s. s\<lparr>sm_activeDials := (sm_activeDials s)(peerAddr := None)\<rparr>)
      in if sm_done s then (None, forget s)
         else case outcome of None \<Rightarrow> (None, forget s)
           | Some (c, localAddr, remoteAddr) \<Rightarrow>
               (case trySend (Some (ownHandshake (word_of_int (fst (Atoi (sm_syncPort s)))) s)) (NewSafeConn localAddr remoteAddr) of
                  (True, sc) \<Rightarrow> (Some c, forget (updSock c (\<lambda>_. sc) s))
                | (False, sc) \<Rightarrow> (None, forget (updSock c (\<lambda>_. SafeConn_Close sc) s))))"

text \<open>The targets of \<^verbatim>\<open>discoverAndConnect\<close> with their server names, in order. \<open>lookup\<close> is the resolver.\<close>

definition discoverTargets :: "(string \<Rightarrow> IP list option) \<Rightarrow> string list \<Rightarrow> SyncManager \<Rightarrow> (string \<times> string) list" where
  "discoverTargets lookup localIPs s =
     concat (map (\<lambda>peerRaw.
       let (host, port) = (case SplitHostPort peerRaw of Some hp \<Rightarrow> hp | None \<Rightarrow> (peerRaw, sm_syncPort s))
       in case (case ParseIP host of Some ip \<Rightarrow> Some [ip] | None \<Rightarrow> lookup host) of
            None \<Rightarrow> [(JoinHostPort host port, host)]
          | Some ips \<Rightarrow>
              concat (map (\<lambda>ip.
                let ipStr = IP_String (case To4 ip of Some ip4 \<Rightarrow> ip4 | None \<Rightarrow> ip)
                in if ipStr \<in> set localIPs then [] else [(JoinHostPort ipStr port, host)]) ips)) (sm_peers s))"

text \<open>\<^verbatim>\<open>discoverAndConnect\<close>; the result lists the dials it starts. \<open>nows i\<close> is the time of the \<open>i\<close>-th attempt.\<close>

fun connectAll ::
  "(nat \<Rightarrow> int) \<Rightarrow> string list \<Rightarrow> nat \<Rightarrow> (string \<times> string) list \<Rightarrow> SyncManager \<Rightarrow> (string \<times> string) list \<times> SyncManager" where
  "connectAll nows localIPs i [] s = ([], s)"
| "connectAll nows localIPs i ((peerAddr, serverName) # ts) s =
     (let (started, s1) = tryConnect (nows i) localIPs peerAddr s;
          (dials, s2) = connectAll nows localIPs (Suc i) ts s1
      in ((if started then [(peerAddr, serverName)] else []) @ dials, s2))"

definition discoverAndConnect ::
  "(nat \<Rightarrow> int) \<Rightarrow> (string \<Rightarrow> IP list option) \<Rightarrow> string list \<Rightarrow> SyncManager \<Rightarrow> (string \<times> string) list \<times> SyncManager" where
  "discoverAndConnect nows lookup localIPs s = connectAll nows localIPs 0 (discoverTargets lookup localIPs s) s"

subsection \<open>Handling a message\<close>

definition IsLoopback :: "IP \<Rightarrow> bool" where
  "IsLoopback ip = (case To4 ip of Some ip4 \<Rightarrow> hd ip4 = 127 | None \<Rightarrow> IP_Equal ip (replicate 15 0 @ [1]))"

definition IsMulticast :: "IP \<Rightarrow> bool" where
  "IsMulticast ip = (case To4 ip of Some ip4 \<Rightarrow> hd ip4 AND 0xf0 = 0xe0 | None \<Rightarrow> length ip = 16 \<and> hd ip = 0xff)"

definition IsUnspecified :: "IP \<Rightarrow> bool" where
  "IsUnspecified ip \<longleftrightarrow> IP_Equal ip (IPv4 0 0 0 0) \<or> IP_Equal ip IPv6zero"

definition IsLinkLocalUnicast :: "IP \<Rightarrow> bool" where
  "IsLinkLocalUnicast ip = (case To4 ip of
       Some ip4 \<Rightarrow> hd ip4 = 169 \<and> ip4 ! 1 = 254
     | None \<Rightarrow> length ip = 16 \<and> hd ip = 0xfe \<and> ip ! 1 AND 0xc0 = 0x80)"

definition badPexTarget :: "SyncMessage \<Rightarrow> bool" where
  "badPexTarget m \<longleftrightarrow> msg_PEXPort m = 0 \<or> IsLoopback (msg_PEXIP m) \<or> IsMulticast (msg_PEXIP m) \<or>
     IsUnspecified (msg_PEXIP m) \<or> IsLinkLocalUnicast (msg_PEXIP m)"

definition nftAddMapping :: "IP \<Rightarrow> IP \<Rightarrow> SyncManager \<Rightarrow> SyncManager" where
  "nftAddMapping f r s = s\<lparr>sm_nftCalls := sm_nftCalls s @ [(f, r, MappingTTL)]\<rparr>"

text \<open>One mapping of a message. \<open>clk\<close> is the clock read by \<^verbatim>\<open>ObserveVersion\<close> and \<open>e\<close> the expiry time.\<close>

definition handleMapping :: "u64 \<Rightarrow> int \<Rightarrow> Mapping \<Rightarrow> SyncManager \<Rightarrow> SyncManager" where
  "handleMapping clk e m s =
     (case (FakeIP m, RealIP m) of
        (Some f, Some r) \<Rightarrow>
          if \<not> isInSubnet (Some f) s then s
          else (case sm_pool s of
              None \<Rightarrow> nftAddMapping f r s
            | Some p \<Rightarrow>
                if GetVersion f p > Version m then s
                else (case AddMapping r f (Version m) e (ObserveVersion clk (Version m) p) of
                    (False, p') \<Rightarrow> s\<lparr>sm_pool := Some p'\<rparr>
                  | (True, p') \<Rightarrow> nftAddMapping f r (s\<lparr>sm_pool := Some p'\<rparr>)))
      | _ \<Rightarrow> s)"

fun handleMappings :: "(nat \<Rightarrow> u64) \<Rightarrow> (nat \<Rightarrow> int) \<Rightarrow> nat \<Rightarrow> Mapping list \<Rightarrow> SyncManager \<Rightarrow> SyncManager" where
  "handleMappings clk e i [] s = s"
| "handleMappings clk e i (m # ms) s = handleMappings clk e (Suc i) ms (handleMapping (clk i) (e i) m s)"

datatype reaction = Continue | Dial string | Leave

text \<open>One iteration of the reading loop; \<^const>\<open>None\<close> stands for a decoding error. \<open>nows i\<close> is the time read for the
  \<open>i\<close>-th mapping.\<close>

definition handleMessage ::
  "int \<Rightarrow> (nat \<Rightarrow> int) \<Rightarrow> (nat \<Rightarrow> u64) \<Rightarrow> string list \<Rightarrow> SyncMessage option \<Rightarrow> SyncManager \<Rightarrow> reaction \<times> SyncManager" where
  "handleMessage now nows clk localIPs m s =
     (case m of None \<Rightarrow> (Leave, s)
      | Some msg \<Rightarrow>
          if msg_Type msg = MsgTypePEX then
            (if badPexTarget msg then (Continue, s)
             else if 50 \<le> card (dom (sm_conns s)) then (Continue, s)
             else let peerAddr = JoinHostPort (IP_String (msg_PEXIP msg)) (Itoa (unat (msg_PEXPort msg)))
               in case tryConnect now localIPs peerAddr s of
                    (True, s') \<Rightarrow> (Dial peerAddr, s') | (False, s') \<Rightarrow> (Continue, s'))
          else if msg_Type msg = MsgTypePing then (Continue, s)
          else if msg_Type msg = MsgTypeMappings then
            (Continue, handleMappings clk (\<lambda>i. nows i + MappingTTL) 0 (msg_Mappings msg)
               (s\<lparr>sm_syncs := sm_syncs s + of_nat (length (msg_Mappings msg))\<rparr>))
          else (Leave, s))"

definition SyncManager_Close :: "string list \<Rightarrow> SyncManager \<Rightarrow> SyncManager" where
  "SyncManager_Close visit s =
     (if sm_done s then s
      else fold (\<lambda>addr s. case sm_conns s addr of None \<Rightarrow> s | Some c \<Rightarrow> closeConn c s) visit (s\<lparr>sm_done := True\<rparr>))"

subsection \<open>Server start and certificate checks\<close>

text \<open>The outcome of \<^verbatim>\<open>os.Stat\<close>: success, an error for which \<^verbatim>\<open>os.IsNotExist\<close> holds, or another error.\<close>

datatype stat_result = StatOk | NotExist | StatErr

definition resolvePath :: "(string \<Rightarrow> stat_result) \<Rightarrow> string \<Rightarrow> string list \<Rightarrow> string" where
  "resolvePath stat envVal defaults =
     (if envVal \<noteq> [] then envVal
      else case find (\<lambda>p. stat p = StatOk) defaults of Some p \<Rightarrow> p | None \<Rightarrow> last defaults)"

definition isPinning :: "string \<Rightarrow> bool" where
  "isPinning strictTLSVal \<longleftrightarrow> strictTLSVal = ''pinning'' \<or> strictTLSVal = ''pin''"

definition skipVerify :: "string \<Rightarrow> bool" where
  "skipVerify strictTLSVal \<longleftrightarrow> strictTLSVal \<in> {''false'', ''0'', ''n'', ''no''}"

datatype tls_config = NotConfigured | LoadFailed | Loaded "byte list option"

text \<open>\<open>loadPair\<close> is \<^verbatim>\<open>tls.LoadX509KeyPair\<close> (the certificate chain, or an error).\<close>

definition getTLSConfig ::
  "(string \<Rightarrow> stat_result) \<Rightarrow> (string \<Rightarrow> string \<Rightarrow> byte list list option) \<Rightarrow> (byte list \<Rightarrow> byte list) \<Rightarrow> string \<Rightarrow> string \<Rightarrow> tls_config" where
  "getTLSConfig stat loadPair sha256 certEnv keyEnv =
     (let certFile = resolvePath stat certEnv [''/run/secrets/cert.pem'', ''/app/nextpath/certs/cert.pem''];
          keyFile = resolvePath stat keyEnv [''/run/secrets/key.pem'', ''/app/nextpath/certs/key.pem'']
      in if stat certFile = NotExist then NotConfigured
         else if stat keyFile = NotExist then NotConfigured
         else case loadPair certFile keyFile of None \<Rightarrow> LoadFailed
           | Some chain \<Rightarrow> Loaded (if chain \<noteq> [] then Some (sha256 (hd chain)) else None))"

text \<open>The decisions of \<^verbatim>\<open>StartServer\<close> before it listens: whether the server starts, and the pinned fingerprints.\<close>

definition StartServer :: "tls_config \<Rightarrow> string \<Rightarrow> string \<Rightarrow> SyncManager \<Rightarrow> bool \<times> SyncManager" where
  "StartServer tls strictTLSVal hashStr s =
     (case tls of
        NotConfigured \<Rightarrow> (False, s)
      | LoadFailed \<Rightarrow> (False, s)
      | Loaded fingerprint \<Rightarrow>
          if sm_authToken s = [] \<or> sm_authToken s = ''change_me_to_a_secure_random_string'' then (False, s)
          else if isPinning strictTLSVal then
            (if TrimSpace hashStr \<noteq> [] \<and> sm_certFingerprints s = [] then (False, s)
             else (True, case fingerprint of
               Some fp \<Rightarrow> if sm_certFingerprints s = [] then s\<lparr>sm_certFingerprints := [fp]\<rparr> else s
             | None \<Rightarrow> s))
          else (True, s))"

text \<open>The TLS policy of an outgoing connection: whether the standard verification is skipped, and the verdict of
  the pinning callback on the certificates the peer sent. \<open>sha256\<close> is the hash function.\<close>

definition insecureSkipVerify :: "string \<Rightarrow> bool" where
  "insecureSkipVerify strictTLSVal \<longleftrightarrow> skipVerify strictTLSVal \<or> isPinning strictTLSVal"

definition verifyPeerCertificate ::
  "(byte list \<Rightarrow> byte list) \<Rightarrow> string \<Rightarrow> byte list list \<Rightarrow> SyncManager \<Rightarrow> bool" where
  "verifyPeerCertificate sha256 strictTLSVal rawCerts s \<longleftrightarrow>
     (if isPinning strictTLSVal \<and> sm_certFingerprints s \<noteq> []
      then rawCerts \<noteq> [] \<and> sha256 (hd rawCerts) \<in> set (sm_certFingerprints s) else True)"

end
