(* ===== verification/SyncConn.thy ===== *)
theory SyncConn
  imports Sync
begin

text \<open>
  Connections of the synchronisation layer: queues, registration, the tie-break between duplicate
  connections, what the handshake requires, and the batches of the initial transfer.
\<close>

subsection \<open>Queues\<close>

definition conn_ok :: "SafeConn \<Rightarrow> bool" where
  "conn_ok sc \<longleftrightarrow> length (sc_writeChan sc) \<le> chanCap"

lemma trySend_ok: "conn_ok sc \<Longrightarrow> conn_ok (snd (trySend m sc))"
  by (auto simp: conn_ok_def trySend_def)

lemma Close_ok: "conn_ok sc \<Longrightarrow> conn_ok (SafeConn_Close sc)"
  by (auto simp: SafeConn_Close_def conn_ok_def trySend_def)

lemma sendOrClose_ok: "conn_ok sc \<Longrightarrow> conn_ok (snd (sendOrClose m sc))"
  using trySend_ok [of sc "Some m"] by (auto simp: sendOrClose_def Close_ok split: prod.splits bool.splits)

lemma sendBatches_ok: "conn_ok sc \<Longrightarrow> conn_ok (snd (sendBatches ms cur sc))"
proof (induction ms cur sc rule: sendBatches.induct)
  case (2 m ms cur sc)
  then show ?case using sendOrClose_ok [of sc "mappingsMessage (cur @ [m])"]
    by (auto split: prod.splits bool.splits)
qed (simp add: sendOrClose_ok)

lemma Close_closed [simp]: "sc_closed (SafeConn_Close sc)"
  by (simp add: SafeConn_Close_def trySend_def)

lemma sendOrClose_cases:
  "sendOrClose m sc = (if sc_closed sc then (False, sc)
     else if length (sc_writeChan sc) < chanCap then (True, sc\<lparr>sc_writeChan := sc_writeChan sc @ [Some m]\<rparr>)
     else (False, SafeConn_Close sc))"
  by (simp add: sendOrClose_def trySend_def)

lemma trySend_frame [simp]:
  "sc_closed (snd (trySend m sc)) = sc_closed sc" "sc_peerUUID (snd (trySend m sc)) = sc_peerUUID sc"
  "sc_isOutgoing (snd (trySend m sc)) = sc_isOutgoing sc" "sc_RemoteAddr (snd (trySend m sc)) = sc_RemoteAddr sc"
  by (simp_all add: trySend_def)

subsection \<open>Frames\<close>

lemma updSock_sel [simp]:
  "sm_conns (updSock c h s) = sm_conns s" "sm_activeDials (updSock c h s) = sm_activeDials s"
  "sm_done (updSock c h s) = sm_done s" "sm_nodeUUID (updSock c h s) = sm_nodeUUID s"
  "sm_poolNet (updSock c h s) = sm_poolNet s" "sm_poolNet6 (updSock c h s) = sm_poolNet6 s"
  "sm_parsedNetV4 (updSock c h s) = sm_parsedNetV4 s" "sm_parsedNetV6 (updSock c h s) = sm_parsedNetV6 s"
  "sm_pool (updSock c h s) = sm_pool s" "sm_authToken (updSock c h s) = sm_authToken s"
  "sm_syncPort (updSock c h s) = sm_syncPort s" "sm_syncPortNum (updSock c h s) = sm_syncPortNum s"
  "sm_nftCalls (updSock c h s) = sm_nftCalls s" "sm_resultHash (updSock c h s) = sm_resultHash s"
  "sm_socks (updSock c h s) = (sm_socks s)(c := h (sm_socks s c))"
  by (simp_all add: updSock_def)

lemmas conn_frames = closeConn_def sendTo_def

subsection \<open>Broadcast and initial transfer\<close>

lemma send_all:
  assumes "inj_on (sm_conns s) (set visit)" "distinct visit"
  shows "sm_conns (fold (\<lambda>addr s. case sm_conns s addr of None \<Rightarrow> s | Some c \<Rightarrow> sendTo m c s) visit s) = sm_conns s \<and>
    sm_socks (fold (\<lambda>addr s. case sm_conns s addr of None \<Rightarrow> s | Some c \<Rightarrow> sendTo m c s) visit s) =
      (\<lambda>c. if Some c \<in> sm_conns s ` set visit then snd (sendOrClose m (sm_socks s c)) else sm_socks s c)"
  using assms
proof (induction visit arbitrary: s)
  case (Cons a visit)
  let ?s1 = "case sm_conns s a of None \<Rightarrow> s | Some c \<Rightarrow> sendTo m c s"
  have c1: "sm_conns ?s1 = sm_conns s" by (simp add: sendTo_def split: option.splits)
  have inj: "inj_on (sm_conns ?s1) (set visit)" "distinct visit" using Cons.prems c1 by auto
  have notin: "sm_conns s a \<notin> sm_conns s ` set visit" using Cons.prems by auto
  have "sm_socks ?s1 = (\<lambda>c. if sm_conns s a = Some c then snd (sendOrClose m (sm_socks s c)) else sm_socks s c)"
    by (auto simp: sendTo_def fun_eq_iff split: option.splits)
  then show ?case using Cons.IH [OF inj] c1 notin by (auto simp: fun_eq_iff)
qed simp

text \<open>C14: a broadcast never blocks and never loses mappings silently. Afterwards every registered connection that
  was open either has the mappings as the last message of its queue or is closed; closed connections and
  connections that are not registered are untouched.\<close>

theorem BroadcastMappings_delivers:
  fixes s :: SyncManager
  assumes "mappings \<noteq> []" "inj_on (sm_conns s) (dom (sm_conns s))" "distinct visit" "set visit = dom (sm_conns s)"
  defines "t \<equiv> BroadcastMappings visit mappings s"
  shows "sm_conns t = sm_conns s \<and>
    (\<forall>addr c. sm_conns s addr = Some c \<and> \<not> sc_closed (sm_socks s c) \<longrightarrow>
       sc_writeChan (sm_socks t c) = sc_writeChan (sm_socks s c) @ [Some (mappingsMessage mappings)] \<and>
         \<not> sc_closed (sm_socks t c) \<or>
       chanCap \<le> length (sc_writeChan (sm_socks s c)) \<and> sc_closed (sm_socks t c)) \<and>
    (\<forall>c. c \<notin> ran (sm_conns s) \<or> sc_closed (sm_socks s c) \<longrightarrow> sm_socks t c = sm_socks s c)"
proof (cases "sm_conns s = Map.empty")
  case True
  then show ?thesis by (simp add: t_def BroadcastMappings_def)
next
  case False
  have inj: "inj_on (sm_conns s) (set visit)" using assms by simp
  have t: "t = fold (\<lambda>addr s. case sm_conns s addr of None \<Rightarrow> s | Some c \<Rightarrow> sendTo (mappingsMessage mappings) c s) visit s"
    using False assms(1) by (simp add: t_def BroadcastMappings_def)
  note all = send_all [OF inj assms(3), of "mappingsMessage mappings", folded t]
  have reg: "Some c \<in> sm_conns s ` set visit \<longleftrightarrow> c \<in> ran (sm_conns s)" for c
    unfolding assms(4) ran_def by (force simp: dom_def)
  show ?thesis unfolding all [THEN conjunct1] all [THEN conjunct2] reg by (auto simp: sendOrClose_cases ran_def)
qed

theorem BroadcastMappings_delivers_witness:
  "let s = (NewSyncManager [] ''9999'' [] [] None ''t'' [] ([], []) 1)
         \<lparr>sm_conns := [''a'' \<mapsto> 0, ''b'' \<mapsto> 1], sm_socks := (\<lambda>_. NewSafeConn [] None)(1 := SafeConn_Close (NewSafeConn [] None))\<rparr>;
       m = \<lparr>FakeIP = None, RealIP = None, Version = 1\<rparr>; t = BroadcastMappings [''a'', ''b''] [m] s
   in sc_writeChan (sm_socks t 0) = [Some (mappingsMessage [m])] \<and> sm_socks t 1 = sm_socks s 1"
proof -
  let ?s = "(NewSyncManager [] ''9999'' [] [] None ''t'' [] ([], []) 1)
         \<lparr>sm_conns := [''a'' \<mapsto> 0, ''b'' \<mapsto> 1], sm_socks := (\<lambda>_. NewSafeConn [] None)(1 := SafeConn_Close (NewSafeConn [] None))\<rparr>"
    and ?m = "\<lparr>FakeIP = None, RealIP = None, Version = 1\<rparr>"
  have "inj_on (sm_conns ?s) (dom (sm_conns ?s))" "set [''a'', ''b''] = dom (sm_conns ?s)"
    by (auto simp: inj_on_def)
  note th = BroadcastMappings_delivers [OF _ this(1) _ this(2), of "[?m]"]
  have "sm_socks (BroadcastMappings [''a'', ''b''] [?m] ?s) 1 = sm_socks ?s 1"
    by (rule th [THEN conjunct2, THEN conjunct2, rule_format]) simp_all
  moreover have "sm_conns ?s ''a'' = Some 0 \<and> \<not> sc_closed (sm_socks ?s 0)" by (simp add: NewSafeConn_def)
  with th [THEN conjunct2, THEN conjunct1, rule_format, of "''a''" 0]
  have "sc_writeChan (sm_socks (BroadcastMappings [''a'', ''b''] [?m] ?s) 0) = [Some (mappingsMessage [?m])]"
    by (simp add: NewSafeConn_def chanCap_def)
  ultimately show ?thesis unfolding Let_def by blast
qed

subsection \<open>The batches of the initial transfer\<close>

text \<open>The batches a list is cut into.\<close>

function batches :: "Mapping list \<Rightarrow> Mapping list list" where
  "batches ms = (if ms = [] then [] else take 1000 ms # batches (drop 1000 ms))"
  by pat_completeness auto

termination
  by (relation "measure length") auto

declare batches.simps [simp del]

lemma concat_batches: "concat (batches ms) = ms"
proof (induction ms rule: batches.induct)
  case (1 ms)
  then show ?case by (subst batches.simps) simp
qed

lemma batches_small: "0 < length ms \<Longrightarrow> length ms \<le> 1000 \<Longrightarrow> batches ms = [ms]"
  by (subst batches.simps, subst batches.simps) simp

lemma batches_full: "length ms = 1000 \<Longrightarrow> batches (ms @ ns) = ms # batches ns"
  by (subst batches.simps) auto

lemma length_batches: "length (batches ms) = (length ms + 999) div 1000"
proof (induction ms rule: batches.induct)
  case (1 ms)
  show ?case
  proof (cases "ms = []")
    case False
    have "(length ms + 999) div 1000 = Suc ((length (drop 1000 ms) + 999) div 1000)"
    proof (cases "1000 \<le> length ms")
      case True
      then obtain k where "length ms = k + 1000" using le_Suc_ex by (metis add.commute)
      then show ?thesis by (simp add: div_add_self2 [symmetric])
    next
      case short: False
      then have "1000 \<le> length ms + 999" "length ms + 999 < 2000" using False by (auto simp: Suc_le_eq)
      then have "(length ms + 999) div 1000 = 1" by (simp add: div_nat_eqI)
      with short show ?thesis by simp
    qed
    then show ?thesis using 1 [OF False] False by (subst batches.simps) simp
  qed (simp add: batches.simps)
qed

lemma sendBatches_eq:
  assumes "\<not> sc_closed sc" "length cur < 1000" "length (sc_writeChan sc) + length (batches (cur @ ms)) \<le> chanCap"
  shows "sendBatches ms cur sc =
    (True, sc\<lparr>sc_writeChan := sc_writeChan sc @ map (Some \<circ> mappingsMessage) (batches (cur @ ms))\<rparr>)"
  using assms
proof (induction ms arbitrary: cur sc)
  case Nil
  show ?case
  proof (cases "cur = []")
    case True
    then show ?thesis by (subst batches.simps) simp
  next
    case False
    then have "batches cur = [cur]" using Nil.prems(2) by (intro batches_small) auto
    then show ?thesis using Nil.prems False by (simp add: sendOrClose_cases)
  qed
next
  case (Cons m ms)
  show ?case
  proof (cases "1000 \<le> length (cur @ [m])")
    case True
    then have len: "length (cur @ [m]) = 1000" using Cons.prems(2) by simp
    have b: "batches (cur @ m # ms) = (cur @ [m]) # batches ms" using batches_full [OF len, of ms] by simp
    let ?sc = "sc\<lparr>sc_writeChan := sc_writeChan sc @ [Some (mappingsMessage (cur @ [m]))]\<rparr>"
    have "sendOrClose (mappingsMessage (cur @ [m])) sc = (True, ?sc)"
      using Cons.prems b by (simp add: sendOrClose_cases)
    moreover have "sendBatches ms [] ?sc = (True, ?sc\<lparr>sc_writeChan := sc_writeChan ?sc @ map (Some \<circ> mappingsMessage) (batches ([] @ ms))\<rparr>)"
      using Cons.prems b by (intro Cons.IH) auto
    ultimately show ?thesis using True b by simp
  next
    case False
    then show ?thesis using Cons.IH [of sc "cur @ [m]"] Cons.prems by simp
  qed
qed

text \<open>C15: the initial transfer queues every mapping exactly once, in order, in batches of 1000 with a shorter last
  batch, when the connection is open and its queue has room for the batches. It then does not close the
  connection.\<close>

theorem sendAllMappings_batches:
  assumes "\<not> sc_closed (sm_socks s c)"
    "length (sc_writeChan (sm_socks s c)) + length (batches mappings) \<le> chanCap"
  shows "sm_socks (sendAllMappingsToConn c mappings s) c =
      (sm_socks s c)\<lparr>sc_writeChan := sc_writeChan (sm_socks s c) @ map (Some \<circ> mappingsMessage) (batches mappings)\<rparr> \<and>
    concat (batches mappings) = mappings \<and>
    (\<forall>b\<in>set (batches mappings). 0 < length b \<and> length b \<le> 1000) \<and>
    length (batches mappings) = (length mappings + 999) div 1000"
proof -
  have "\<forall>b\<in>set (batches ms). 0 < length b \<and> length b \<le> 1000" for ms
    by (induction ms rule: batches.induct) (subst batches.simps, auto)
  then show ?thesis using sendBatches_eq [of "sm_socks s c" "[]" mappings] assms
    by (simp add: sendAllMappingsToConn_def concat_batches length_batches)
qed

theorem sendAllMappings_batches_witness:
  "let s = NewSyncManager [] ''9999'' [] [] None ''t'' [] ([], []) 1; m = \<lparr>FakeIP = None, RealIP = None, Version = 1\<rparr>
   in sc_writeChan (sm_socks (sendAllMappingsToConn 0 [m, m] s) 0) = [Some (mappingsMessage [m, m])]"
proof -
  let ?s = "NewSyncManager [] ''9999'' [] [] None ''t'' [] ([], []) 1" and ?m = "\<lparr>FakeIP = None, RealIP = None, Version = 1\<rparr>"
  have b: "batches [?m, ?m] = [[?m, ?m]]" by (rule batches_small) simp_all
  have "sm_socks ?s 0 = NewSafeConn [] None" by (simp add: NewSyncManager_def RefreshResultHash_def)
  then show ?thesis using sendAllMappings_batches [of ?s 0 "[?m, ?m]"]
    by (simp add: Let_def NewSafeConn_def chanCap_def b)
qed

subsection \<open>What the handshake requires\<close>

lemma registerConn_cases:
  "registerConn c a out s = (True, s') \<Longrightarrow> \<not> sm_done s \<and> sm_conns s' = (sm_conns s)(a \<mapsto> c)"
  "registerConn c a out s = (False, s') \<Longrightarrow> s' = s"
  by (auto simp: registerConn_def Let_def conn_frames split: if_splits option.splits)

lemma acceptHandshake_Some:
  assumes "acceptHandshake c out m s = (Some a, s')"
  obtains msg h ip where "m = Some msg" "msg_Type msg = MsgTypeHandshake" "msg_Handshake msg = Some h"
    "checkAuthToken (hs_AuthToken h) s" "hs_UUID h \<noteq> sm_nodeUUID s"
    "\<not> out \<Longrightarrow> hs_PoolNet h = sm_poolNet s \<and> hs_PoolNet6 h = sm_poolNet6 s"
    "sc_RemoteAddr (sm_socks s c) = Some ip" "a = canonicalAddr ip (hs_Port h)"
    "\<not> sm_done s" "sm_conns s' = (sm_conns s)(a \<mapsto> c)"
  using assms unfolding acceptHandshake_def readHandshake_def Let_def
  by (auto split: option.splits if_splits prod.splits bool.splits dest!: registerConn_cases(1))

lemma acceptHandshake_None:
  assumes "acceptHandshake c out m s = (None, s')"
  shows "sm_conns s' = sm_conns s \<and> (\<forall>c'. c' \<noteq> c \<longrightarrow> sm_socks s' c' = sm_socks s c')"
  using assms unfolding acceptHandshake_def Let_def
  by (auto split: option.splits if_splits prod.splits bool.splits dest!: registerConn_cases(2))

text \<open>C13: a connection enters the registry only after a handshake message that carries the shared token (when one is
  configured), comes from another node and, for accepted connections, names the same address pools; it is then
  registered under the address of the peer and the announced port. Every other outcome closes the connection and
  leaves the registry and all other connections as they were.\<close>

theorem handshake_gate:
  assumes "beginConnection c out m s = (r, s')"
  shows "case r of
      Some a \<Rightarrow> \<exists>msg h ip. m = Some msg \<and> msg_Type msg = MsgTypeHandshake \<and> msg_Handshake msg = Some h \<and>
        (sm_authToken s \<noteq> [] \<longrightarrow> hs_AuthToken h = sm_authToken s) \<and> hs_UUID h \<noteq> sm_nodeUUID s \<and>
        (\<not> out \<longrightarrow> hs_PoolNet h = sm_poolNet s \<and> hs_PoolNet6 h = sm_poolNet6 s) \<and>
        sc_RemoteAddr (sm_socks s c) = Some ip \<and> a = canonicalAddr ip (hs_Port h) \<and>
        \<not> sm_done s \<and> sm_conns s' = (sm_conns s)(a \<mapsto> c)
    | None \<Rightarrow> sm_conns s' = sm_conns s \<and> sc_closed (sm_socks s' c) \<and> (\<forall>c'. c' \<noteq> c \<longrightarrow> sm_socks s' c' = sm_socks s c')"
proof (cases r)
  case None
  then obtain s1 where "acceptHandshake c out m s = (None, s1)" "s' = closeConn c s1"
    using assms by (auto simp: beginConnection_def split: prod.splits option.splits)
  with acceptHandshake_None None show ?thesis by (auto simp: conn_frames)
next
  case (Some a)
  then have acc: "acceptHandshake c out m s = (Some a, s')"
    using assms by (auto simp: beginConnection_def split: prod.splits option.splits)
  show ?thesis unfolding Some option.case
    by (rule acceptHandshake_Some [OF acc]) (auto simp: checkAuthToken_def)
qed

definition sampleManager :: "u64 \<Rightarrow> SyncManager" where
  "sampleManager u = (NewSyncManager [] ''9999'' ''10.0.0.0/8'' [] None ''t'' [] ([], []) u)
     \<lparr>sm_socks := (\<lambda>_. NewSafeConn [] (Some [192, 0, 2, 7]))\<rparr>"

definition sampleHandshake :: "u64 \<Rightarrow> SyncMessage" where
  "sampleHandshake v = ownHandshake 9999 (sampleManager v)"

lemma sampleManager_sel [simp]:
  "sm_authToken (sampleManager u) = ''t''" "sm_nodeUUID (sampleManager u) = u" "sm_done (sampleManager u) = False"
  "sm_poolNet (sampleManager u) = ''10.0.0.0/8''" "sm_poolNet6 (sampleManager u) = []"
  "sm_socks (sampleManager u) = (\<lambda>_. NewSafeConn [] (Some [192, 0, 2, 7]))" "sm_conns (sampleManager u) = Map.empty"
  "sm_syncPort (sampleManager u) = ''9999''"
  by (simp_all add: sampleManager_def NewSyncManager_def RefreshResultHash_def)

lemma sampleHandshake_read:
  "readHandshake (Some (sampleHandshake v)) = Some (the (msg_Handshake (sampleHandshake v)))"
  "hs_UUID (the (msg_Handshake (sampleHandshake v))) = v" "hs_AuthToken (the (msg_Handshake (sampleHandshake v))) = ''t''"
  "hs_PoolNet (the (msg_Handshake (sampleHandshake v))) = ''10.0.0.0/8''"
  "hs_PoolNet6 (the (msg_Handshake (sampleHandshake v))) = []" "hs_Port (the (msg_Handshake (sampleHandshake v))) = 9999"
  by (simp_all add: readHandshake_def sampleHandshake_def ownHandshake_def)

theorem handshake_gate_witness:
  "\<exists>s'. beginConnection 0 False (Some (sampleHandshake 5)) (sampleManager 3) = (Some (canonicalAddr [192, 0, 2, 7] 9999), s') \<and>
     sm_conns s' = [canonicalAddr [192, 0, 2, 7] 9999 \<mapsto> 0]"
proof -
  obtain s' where s': "beginConnection 0 False (Some (sampleHandshake 5)) (sampleManager 3) =
      (Some (canonicalAddr [192, 0, 2, 7] 9999), s')"
    by (simp add: beginConnection_def acceptHandshake_def sampleHandshake_read checkAuthToken_def Let_def
        NewSafeConn_def trySend_def chanCap_def registerConn_def)
  with handshake_gate [OF this] show ?thesis by auto
qed

subsection \<open>Simultaneous connections\<close>

text \<open>\<open>peerHello v pt s m\<close>: the message is a handshake of node \<open>v\<close> that the manager \<open>s\<close> accepts.\<close>

definition peerHello :: "u64 \<Rightarrow> u16 \<Rightarrow> SyncManager \<Rightarrow> SyncMessage option \<Rightarrow> bool" where
  "peerHello v pt s m \<longleftrightarrow> (\<exists>h. readHandshake m = Some h \<and> hs_UUID h = v \<and> hs_Port h = pt \<and>
     checkAuthToken (hs_AuthToken h) s \<and> hs_PoolNet h = sm_poolNet s \<and> hs_PoolNet6 h = sm_poolNet6 s)"

definition markConn :: "u64 \<Rightarrow> bool \<Rightarrow> SafeConn \<Rightarrow> SafeConn" where
  "markConn v out sc = sc\<lparr>sc_peerUUID := v, sc_isOutgoing := out\<rparr>"

lemma acceptHandshake_hello:
  assumes "peerHello v pt s m" "v \<noteq> sm_nodeUUID s" "sc_RemoteAddr (sm_socks s c) = Some ip"
    "out \<or> length (sc_writeChan (sm_socks s c)) < chanCap"
  shows "\<exists>sc. sc_closed sc = sc_closed (sm_socks s c) \<and> sc_RemoteAddr sc = Some ip \<and>
    acceptHandshake c out m s =
      (case registerConn c (canonicalAddr ip pt) out (updSock c (\<lambda>_. markConn v out sc) s) of
         (True, s') \<Rightarrow> (Some (canonicalAddr ip pt), s') | (False, s') \<Rightarrow> (None, s'))"
proof -
  obtain h where h: "readHandshake m = Some h" "hs_UUID h = v" "hs_Port h = pt" "checkAuthToken (hs_AuthToken h) s"
    "hs_PoolNet h = sm_poolNet s" "hs_PoolNet6 h = sm_poolNet6 s"
    using assms(1) by (auto simp: peerHello_def)
  show ?thesis
  proof (cases out)
    case True
    then show ?thesis using h assms(2,3)
      by (intro exI [of _ "sm_socks s c"]) (simp add: acceptHandshake_def Let_def markConn_def updSock_def)
  next
    case False
    let ?m = "Some (ownHandshake (sm_syncPortNum s) s)"
    obtain sc where sc: "trySend ?m (sm_socks s c) = (True, sc)"
      using assms(4) False by (simp add: trySend_def)
    have "sc_closed sc = sc_closed (sm_socks s c)" "sc_RemoteAddr sc = Some ip"
      using trySend_frame [of ?m "sm_socks s c"] sc assms(3) by simp_all
    then show ?thesis using False h assms(2,3) sc
      by (intro exI [of _ sc]) (simp add: acceptHandshake_def Let_def markConn_def updSock_def)
  qed
qed

lemma registerConn_first:
  "\<not> sm_done s \<Longrightarrow> sm_conns s a = None \<Longrightarrow>
     \<exists>s'. registerConn c a out s = (True, s') \<and> sm_conns s' = (sm_conns s)(a \<mapsto> c) \<and> sm_socks s' = sm_socks s \<and>
       sm_done s' = sm_done s \<and> sm_nodeUUID s' = sm_nodeUUID s \<and> sm_authToken s' = sm_authToken s \<and>
       sm_poolNet s' = sm_poolNet s \<and> sm_poolNet6 s' = sm_poolNet6 s"
  by (simp add: registerConn_def Let_def)

text \<open>The second registration under the same address, of the connection of the other direction.\<close>

lemma registerConn_second:
  assumes "\<not> sm_done s" "sm_conns s a = Some c1" "c1 \<noteq> c2" "v \<noteq> sm_nodeUUID s"
    "sm_socks s c1 = markConn v (\<not> out) x" "sm_socks s c2 = markConn v out y"
  shows "if out = (sm_nodeUUID s < v)
    then \<exists>s'. registerConn c2 a out s = (True, s') \<and> sm_conns s' = (sm_conns s)(a \<mapsto> c2) \<and>
      sm_socks s' = (sm_socks s)(c1 := SafeConn_Close (sm_socks s c1))
    else registerConn c2 a out s = (False, s)"
proof -
  have "shouldKeepNewConnection (sm_nodeUUID s) (sm_syncPort s) (sm_socks s c1) (sm_socks s c2) a = (out = (sm_nodeUUID s < v))"
    using assms(4) by (auto simp: shouldKeepNewConnection_def assms(5,6) markConn_def)
  then show ?thesis using assms(1-3) by (auto simp: registerConn_def Let_def conn_frames)
qed

text \<open>Both connections of a pair, in the order \<open>c1\<close>, \<open>c2\<close>; \<open>out\<close> tells whether \<open>c2\<close> is the outgoing one.\<close>

lemma begin_pair:
  fixes out :: bool
  assumes idle: "\<not> sm_done s" "sm_conns s a = None" and a: "a = canonicalAddr ip pt" and c: "c1 \<noteq> c2"
    and v: "v \<noteq> sm_nodeUUID s" and hello: "peerHello v pt s m1" "peerHello v pt s m2"
    and sock: "\<forall>c\<in>{c1, c2}. sc_RemoteAddr (sm_socks s c) = Some ip \<and> \<not> sc_closed (sm_socks s c) \<and>
      length (sc_writeChan (sm_socks s c)) < chanCap"
  defines "t \<equiv> snd (beginConnection c2 out m2 (snd (beginConnection c1 (\<not> out) m1 s)))"
    and "w \<equiv> (if out = (sm_nodeUUID s < v) then c2 else c1)" and "l \<equiv> (if out = (sm_nodeUUID s < v) then c1 else c2)"
  shows "sm_conns t a = Some w \<and> \<not> sc_closed (sm_socks t w) \<and> sc_closed (sm_socks t l)"
proof -
  obtain x1 where x1: "\<not> sc_closed x1" "sc_RemoteAddr x1 = Some ip" "acceptHandshake c1 (\<not> out) m1 s =
      (case registerConn c1 a (\<not> out) (updSock c1 (\<lambda>_. markConn v (\<not> out) x1) s) of
         (True, s') \<Rightarrow> (Some a, s') | (False, s') \<Rightarrow> (None, s'))"
    using acceptHandshake_hello [OF hello(1) v, of c1 ip "\<not> out"] sock a by auto
  let ?s0 = "updSock c1 (\<lambda>_. markConn v (\<not> out) x1) s"
  obtain s1 where s1: "registerConn c1 a (\<not> out) ?s0 = (True, s1)" "sm_conns s1 = (sm_conns s)(a \<mapsto> c1)"
      "sm_socks s1 = (sm_socks s)(c1 := markConn v (\<not> out) x1)" "\<not> sm_done s1" "sm_nodeUUID s1 = sm_nodeUUID s"
      "sm_authToken s1 = sm_authToken s" "sm_poolNet s1 = sm_poolNet s" "sm_poolNet6 s1 = sm_poolNet6 s"
    using registerConn_first [of ?s0 a c1 "\<not> out"] idle by auto
  have b1: "beginConnection c1 (\<not> out) m1 s = (Some a, s1)" by (simp add: beginConnection_def x1(3) s1(1))
  have hello2: "peerHello v pt s1 m2" using hello(2) s1 by (simp add: peerHello_def checkAuthToken_def)
  have sock2: "sm_socks s1 c2 = sm_socks s c2" using s1(3) c by simp
  obtain x2 where x2: "\<not> sc_closed x2" "acceptHandshake c2 out m2 s1 =
      (case registerConn c2 a out (updSock c2 (\<lambda>_. markConn v out x2) s1) of
         (True, s') \<Rightarrow> (Some a, s') | (False, s') \<Rightarrow> (None, s'))"
    using acceptHandshake_hello [OF hello2, of c2 ip out] sock a v s1(5) sock2 by auto
  let ?s2 = "updSock c2 (\<lambda>_. markConn v out x2) s1"
  have "if out = (sm_nodeUUID ?s2 < v)
    then \<exists>s'. registerConn c2 a out ?s2 = (True, s') \<and> sm_conns s' = (sm_conns ?s2)(a \<mapsto> c2) \<and>
      sm_socks s' = (sm_socks ?s2)(c1 := SafeConn_Close (sm_socks ?s2 c1))
    else registerConn c2 a out ?s2 = (False, ?s2)"
    using s1 c v by (intro registerConn_second [where x = x1 and y = x2]) auto
  then show ?thesis using x1(1) x2 s1 c unfolding t_def w_def l_def b1 snd_conv
    by (auto simp: beginConnection_def conn_frames markConn_def split: if_splits)
qed

text \<open>C12: two nodes that connect to each other at the same time keep the same connection. Node A with identifier
  \<open>u\<close> dials connection 1 and accepts connection 2, node B with identifier \<open>v\<close> accepts connection 1 and dials
  connection 2. In whatever order each node completes the two handshakes, both nodes end with the connection
  dialled by the node with the smaller identifier registered and open, and close the other one.\<close>

theorem simultaneous_dial_agreement:
  fixes sA sB :: SyncManager and u v :: u64 and orderA orderB :: bool
  assumes ids: "sm_nodeUUID sA = u" "sm_nodeUUID sB = v" "u \<noteq> v"
    and idle: "\<not> sm_done sA" "\<not> sm_done sB" "sm_conns sA (canonicalAddr ipB ptB) = None" "sm_conns sB (canonicalAddr ipA ptA) = None"
    and hello: "peerHello v ptB sA m1A" "peerHello v ptB sA m2A" "peerHello u ptA sB m1B" "peerHello u ptA sB m2B"
    and socksA: "\<forall>c\<in>{1, 2}. sc_RemoteAddr (sm_socks sA c) = Some ipB \<and> \<not> sc_closed (sm_socks sA c) \<and>
      length (sc_writeChan (sm_socks sA c)) < chanCap"
    and socksB: "\<forall>c\<in>{1, 2}. sc_RemoteAddr (sm_socks sB c) = Some ipA \<and> \<not> sc_closed (sm_socks sB c) \<and>
      length (sc_writeChan (sm_socks sB c)) < chanCap"
  defines "tA \<equiv> (if orderA then snd (beginConnection 2 False m2A (snd (beginConnection 1 True m1A sA)))
      else snd (beginConnection 1 True m1A (snd (beginConnection 2 False m2A sA))))"
    and "tB \<equiv> (if orderB then snd (beginConnection 2 True m2B (snd (beginConnection 1 False m1B sB)))
      else snd (beginConnection 1 False m1B (snd (beginConnection 2 True m2B sB))))"
    and "w \<equiv> (if u < v then 1 else 2)" and "l \<equiv> (if u < v then 2 else 1)"
  shows "sm_conns tA (canonicalAddr ipB ptB) = Some w \<and> \<not> sc_closed (sm_socks tA w) \<and> sc_closed (sm_socks tA l) \<and>
    sm_conns tB (canonicalAddr ipA ptA) = Some w \<and> \<not> sc_closed (sm_socks tB w) \<and> sc_closed (sm_socks tB l)"
proof -
  have A: "sm_conns tA (canonicalAddr ipB ptB) = Some w \<and> \<not> sc_closed (sm_socks tA w) \<and> sc_closed (sm_socks tA l)"
  proof (cases orderA)
    case True
    then show ?thesis unfolding tA_def w_def l_def
      using begin_pair [OF idle(1,3) refl, of 1 2 v m1A m2A False] hello(1,2) ids socksA by auto
  next
    case False
    then show ?thesis unfolding tA_def w_def l_def
      using begin_pair [OF idle(1,3) refl, of 2 1 v m2A m1A True] hello(1,2) ids socksA by auto
  qed
  have lt: "u < v \<longleftrightarrow> \<not> v < u" using ids(3) by auto
  have B: "sm_conns tB (canonicalAddr ipA ptA) = Some w \<and> \<not> sc_closed (sm_socks tB w) \<and> sc_closed (sm_socks tB l)"
  proof (cases orderB)
    case True
    then show ?thesis unfolding tB_def w_def l_def lt
      using begin_pair [OF idle(2,4) refl, of 1 2 u m1B m2B True] hello(3,4) ids socksB by auto
  next
    case False
    then show ?thesis unfolding tB_def w_def l_def lt
      using begin_pair [OF idle(2,4) refl, of 2 1 u m2B m1B False] hello(3,4) ids socksB by auto
  qed
  from A B show ?thesis by simp
qed

theorem simultaneous_dial_agreement_witness:
  "let tA = snd (beginConnection 2 False (Some (sampleHandshake 5)) (snd (beginConnection 1 True (Some (sampleHandshake 5)) (sampleManager 3))));
       tB = snd (beginConnection 1 False (Some (sampleHandshake 3)) (snd (beginConnection 2 True (Some (sampleHandshake 3)) (sampleManager 5))))
   in sm_conns tA (canonicalAddr [192, 0, 2, 7] 9999) = Some 1 \<and> sm_conns tB (canonicalAddr [192, 0, 2, 7] 9999) = Some 1"
proof -
  have hello: "peerHello v 9999 (sampleManager u) (Some (sampleHandshake v))" for u v
    by (simp add: peerHello_def sampleHandshake_read checkAuthToken_def)
  show ?thesis
    using simultaneous_dial_agreement [of "sampleManager 3" 3 "sampleManager 5" 5 "[192, 0, 2, 7]" 9999 "[192, 0, 2, 7]" 9999,
      OF _ _ _ _ _ _ _ hello hello hello hello, of True False]
    by (simp add: NewSafeConn_def chanCap_def)
qed

end
