(* ===== verification/SyncNode.thy ===== *)
theory SyncNode
  imports SyncConn
begin

text \<open>
  A node: the manager with its pool under everything that can happen to it, in any order. Messages
  of peers are arbitrary, also those of a peer that does not follow the protocol. Whatever they
  contain, the table of fake addresses and the packet filter rules derived from messages stay in
  the range of the pool, and the queues stay bounded.
\<close>

subsection \<open>Definitions\<close>

inductive node_step :: "SyncManager \<Rightarrow> SyncManager \<Rightarrow> bool" where
  node_message: "node_step s (snd (handleMessage now nows clk localIPs m s))"
| node_begin: "node_step s (snd (beginConnection c isOutgoing m s))"
| node_announce: "node_step s (announceConnection ks visit1 visit2 localIPs c selfAddr s)"
| node_cleanup: "node_step s (cleanupConnection c selfAddr s)"
| node_broadcast: "node_step s (BroadcastMappings visit mappings s)"
| node_discover: "node_step s (snd (discoverAndConnect nows lookup localIPs s))"
| node_dial: "node_step s (snd (dialPeer peerAddr outcome s))"
| node_accept: "node_step s (updSock c (\<lambda>_. NewSafeConn localAddr remoteAddr) s)"
| node_writer: "node_step s (updSock c (\<lambda>sc. w_sc (snd (writeLoop ev encOk flushOk \<lparr>w_sc = sc, w_wire = wire\<rparr>))) s)"
| node_refresh: "node_step s (RefreshResultHash h1 h2 s)"
| node_close: "node_step s (SyncManager_Close visit s)"
| node_alloc: "sm_pool s = Some p \<Longrightarrow> node_step s (s\<lparr>sm_pool := Some (snd (alloc_locked v6flag now clk' realIP p))\<rparr>)"
| node_remove: "sm_pool s = Some p \<Longrightarrow> node_step s (s\<lparr>sm_pool := Some (RemoveMapping realIP fakeIP p)\<rparr>)"
| node_prune: "sm_pool s = Some p \<Longrightarrow> node_step s (s\<lparr>sm_pool := Some (prune_delete now i pairs p)\<rparr>)"

text \<open>The part of the state that the containment is about.\<close>

definition sm_core :: "SyncManager \<Rightarrow> IPPool option \<times> IPNet option \<times> IPNet option \<times> (IP \<times> IP \<times> int) list" where
  "sm_core s = (sm_pool s, sm_parsedNetV4 s, sm_parsedNetV6 s, sm_nftCalls s)"

definition inRange :: "IPNet option \<Rightarrow> IPNet option \<Rightarrow> IP \<Rightarrow> bool" where
  "inRange n4 n6 ip = (case To4 ip of
       Some _ \<Rightarrow> (case n4 of Some n \<Rightarrow> IPNet_Contains n ip | None \<Rightarrow> False)
     | None \<Rightarrow> (case n6 of Some n \<Rightarrow> IPNet_Contains n ip | None \<Rightarrow> False))"

definition ranged_pool :: "IPNet option \<Rightarrow> IPNet option \<Rightarrow> IPPool \<Rightarrow> bool" where
  "ranged_pool n4 n6 p \<longleftrightarrow> (\<exists>k4 k6. aligned4 k4 p \<and> 1 \<le> k4 \<and> aligned6 k6 p) \<and> poolNet4 p = n4 \<and> poolNet6 p = n6 \<and>
     (\<forall>f\<in>dom (globalFakeToReal p). inRange n4 n6 (ToIP f))"

definition node_inv :: "IPNet option \<Rightarrow> IPNet option \<Rightarrow> SyncManager \<Rightarrow> bool" where
  "node_inv n4 n6 s \<longleftrightarrow> sm_parsedNetV4 s = n4 \<and> sm_parsedNetV6 s = n6 \<and> (\<exists>p. sm_pool s = Some p \<and> ranged_pool n4 n6 p) \<and>
     (\<forall>(f, r, ttl)\<in>set (sm_nftCalls s). inRange n4 n6 f) \<and> (\<forall>c. conn_ok (sm_socks s c))"

lemma isInSubnet_inRange: "isInSubnet (Some f) s = inRange (sm_parsedNetV4 s) (sm_parsedNetV6 s) f"
  by (simp add: isInSubnet_def inRange_def)

subsection \<open>What the pool operations can add to the table\<close>

lemma table_AddMapping:
  "dom (globalFakeToReal (snd (AddMapping r f v e p))) \<subseteq> insert (ToIPKey f) (dom (globalFakeToReal p))"
  by (auto simp: AddMapping_def Let_def incCollisions_def pool_simps split: if_splits option.splits)

lemma table_RemoveMapping: "dom (globalFakeToReal (RemoveMapping r f p)) \<subseteq> dom (globalFakeToReal p)"
  by (auto simp: RemoveMapping_def Let_def pool_simps split: if_splits)

lemma table_prune_delete: "dom (globalFakeToReal (prune_delete now i ps p)) \<subseteq> dom (globalFakeToReal p)"
proof (induction now i ps p rule: prune_delete.induct)
  case (2 now i r f ps p)
  then show ?case by (fastforce simp: pool_simps split: if_splits option.splits)
qed simp

lemma config_prims:
  "same_config p (delGlobal f q) = same_config p q" "same_config p (setGlobal f r v q) = same_config p q"
  "same_config p (delReal i r q) = same_config p q" "same_config p (setReal i r f e q) = same_config p q"
  "same_config p (setExpiry i r e q) = same_config p q" "same_config p (incCollisions q) = same_config p q"
  "same_config p (q\<lparr>hlc := h\<rparr>) = same_config p q"
  by (simp_all add: same_config_def prim_defs incCollisions_def)

lemma config_AddMapping: "same_config p (snd (AddMapping r f v e p))"
  by (simp add: AddMapping_def Let_def config_prims split: option.splits)

lemma config_RemoveMapping: "same_config p (RemoveMapping r f p)"
  by (simp add: RemoveMapping_def Let_def config_prims)

lemma config_prune_delete: "same_config q p \<Longrightarrow> same_config q (prune_delete now i ps p)"
  by (induction now i ps p rule: prune_delete.induct) (auto simp: config_prims split: option.splits)

lemma alloc_fresh_table:
  "dom (globalFakeToReal (snd (alloc_fresh v6flag now clk r p))) \<subseteq>
     dom (globalFakeToReal p) \<union> {ToIPKey f |f. chooseFake r v6flag p = Some f}"
  "same_config q (snd (alloc_fresh v6flag now clk r p)) = same_config q p"
  by (auto simp: alloc_fresh_def Let_def GetNextVersion_def pool_simps config_prims split: option.splits)

lemma alloc_locked_table:
  "dom (globalFakeToReal (snd (alloc_locked v6flag now clk r p))) \<subseteq>
     dom (globalFakeToReal p) \<union> {ToIPKey f |f q. chooseFake r v6flag q = Some f \<and> same_config p q}"
  "same_config q (snd (alloc_locked v6flag now clk r p)) = same_config q p"
proof -
  let ?i = "getShardIndex r" and ?k = "ToIPKey r"
  consider "snd (alloc_locked v6flag now clk r p) = p" | e where "snd (alloc_locked v6flag now clk r p) = setExpiry ?i ?k e p"
    | q where "snd (alloc_locked v6flag now clk r p) = snd (alloc_fresh v6flag now clk r q)" "same_config p q"
        "dom (globalFakeToReal q) \<subseteq> dom (globalFakeToReal p)"
  proof (cases "realToFake (shards p ! ?i) ?k")
    case None
    then show ?thesis using that(3) [of p] by (simp add: alloc_locked_def)
  next
    case (Some ef)
    have "same_config p (delReal ?i ?k (delGlobal ef p))" by (simp add: config_prims)
    moreover have "dom (globalFakeToReal (delReal ?i ?k (delGlobal ef p))) \<subseteq> dom (globalFakeToReal p)"
      by (auto simp: pool_simps)
    ultimately show ?thesis using that(1) that(2) [of "now + MappingTTL"] that(3) [of "delReal ?i ?k (delGlobal ef p)"] Some
      by (cases "expiries (shards p ! ?i) ?k"; cases "now < the (expiries (shards p ! ?i) ?k)";
        cases "the (expiries (shards p ! ?i) ?k) < now + 5 * minute") (simp_all add: alloc_locked_def Let_def)
  qed
  then show "dom (globalFakeToReal (snd (alloc_locked v6flag now clk r p))) \<subseteq>
     dom (globalFakeToReal p) \<union> {ToIPKey f |f q. chooseFake r v6flag q = Some f \<and> same_config p q}"
  proof cases
    case (3 q)
    then show ?thesis using alloc_fresh_table(1) [of v6flag now clk r q] unfolding 3(1) by blast
  qed (auto simp: pool_simps)
qed (simp add: alloc_locked_def Let_def config_prims alloc_fresh_table split: option.splits)

subsection \<open>Ranges\<close>

lemma parsed_net_ok:
  assumes "ranged_pool n4 n6 p"
  obtains a b where "n4 = Some a" "networkNumberAndMask a \<noteq> None" "n6 = Some b" "networkNumberAndMask b \<noteq> None"
proof -
  obtain k4 k6 where k: "aligned4 k4 p" "aligned6 k6 p" "poolNet4 p = n4" "poolNet6 p = n6"
    using assms by (auto simp: ranged_pool_def)
  have len: "length (poolStart6 p) = 16" using k(2) by (simp add: aligned6_def)
  note nets = GetPoolNet_parse [OF k(1), unfolded k(3)] GetPoolNet6_parse [OF k(2), unfolded k(4)]
  show ?thesis
    by (rule that [OF nets(1) _ nets(2)]) (simp_all add: networkNumberAndMask_def To4_def Let_def len)
qed

lemma Contains_valid:
  assumes "networkNumberAndMask n \<noteq> None" "IPNet_Contains n ip" shows "valid_IP ip"
proof (cases "To4 ip")
  case None
  have "valid_IP nn" if "networkNumberAndMask n = Some (nn, m)" for nn m
    using that by (auto simp: networkNumberAndMask_def Let_def split: if_splits)
  then show ?thesis using assms None by (auto simp: IPNet_Contains_def)
qed (rule To4_To16(3))

text \<open>Membership depends on the key of the address only.\<close>

lemma inRange_key:
  assumes "valid_IP f" shows "inRange n4 n6 (ToIP (ToIPKey f)) = inRange n4 n6 f"
proof -
  have t: "To16 f = Some (ToIP (ToIPKey f))" using ToIP_ToIPKey [OF assms] by simp
  show ?thesis
  proof (cases "length f = 4")
    case True
    then have e: "ToIP (ToIPKey f) = v4InV6Prefix @ f" using t by (simp add: To16_def)
    have "To4 (v4InV6Prefix @ f) = Some f" "To4 f = Some f" using True by (simp_all add: To4_def)
    then show ?thesis unfolding e by (simp add: inRange_def IPNet_Contains_def split: option.splits)
  next
    case False
    then show ?thesis using t assms by (simp add: To16_def)
  qed
qed

lemma ranged_extend:
  assumes "ranged_pool n4 n6 p" "same_config p q"
    "\<And>f. f \<in> dom (globalFakeToReal q) \<Longrightarrow> f \<notin> dom (globalFakeToReal p) \<Longrightarrow> inRange n4 n6 (ToIP f)"
  shows "ranged_pool n4 n6 q"
  using assms same_config_aligned [OF assms(2)] unfolding ranged_pool_def by blast

lemma ranged_valid: "ranged_pool n4 n6 p \<Longrightarrow> inRange n4 n6 f \<Longrightarrow> valid_IP f"
  by (erule parsed_net_ok) (cases "To4 f"; simp add: inRange_def Contains_valid)

lemma ranged_AddMapping:
  assumes "ranged_pool n4 n6 p" "inRange n4 n6 f"
  shows "ranged_pool n4 n6 (snd (AddMapping r f v e p))"
  using assms table_AddMapping [of r f v e p] inRange_key [OF ranged_valid [OF assms]]
  by (intro ranged_extend [OF assms(1) config_AddMapping]) auto

lemma chooseFake_ranged:
  assumes "ranged_pool n4 n6 p" "same_config p q" "chooseFake r v6flag q = Some f"
  shows "inRange n4 n6 f"
proof -
  obtain k4 k6 where k: "aligned4 k4 q" "1 \<le> k4" "aligned6 k6 q" "poolNet4 q = n4" "poolNet6 q = n6"
    using assms(1) same_config_aligned [OF assms(2)] by (auto simp: ranged_pool_def)
  have "To4 f = None \<longleftrightarrow> v6flag"
  proof (cases v6flag)
    case True
    then show ?thesis using chooseFake6_range(2) [OF k(3)] assms(3) by simp
  next
    case False
    then have "chooseFake r False q = Some f" using assms(3) by simp
    from chooseFake4_range [OF k(1,2) this] obtain c where "f = u32_IPv4 c" .
    then show ?thesis using False by (simp add: unat_u32_IPv4)
  qed
  then show ?thesis using chooseFake_in_net [OF k(1-3) assms(3)] k(4,5)
    by (cases v6flag) (auto simp: inRange_def split: option.splits)
qed

lemma ranged_alloc:
  assumes "ranged_pool n4 n6 p"
  shows "ranged_pool n4 n6 (snd (alloc_locked v6flag now clk r p))"
proof (rule ranged_extend [OF assms])
  fix f assume "f \<in> dom (globalFakeToReal (snd (alloc_locked v6flag now clk r p)))" "f \<notin> dom (globalFakeToReal p)"
  then obtain g q where g: "f = ToIPKey g" "chooseFake r v6flag q = Some g" "same_config p q"
    using alloc_locked_table(1) [of v6flag now clk r p] by blast
  have "inRange n4 n6 g" using chooseFake_ranged [OF assms g(3,2)] .
  then show "inRange n4 n6 (ToIP f)" using inRange_key [OF ranged_valid [OF assms]] g(1) by simp
qed (simp add: alloc_locked_table(2))

subsection \<open>Operations on connections\<close>

text \<open>They do not touch the pool and the packet filter, and they keep the queues bounded.\<close>

definition quiet :: "SyncManager \<Rightarrow> SyncManager \<Rightarrow> bool" where
  "quiet s t \<longleftrightarrow> sm_core t = sm_core s \<and> ((\<forall>c. conn_ok (sm_socks s c)) \<longrightarrow> (\<forall>c. conn_ok (sm_socks t c)))"

named_theorems quiet_intros

lemma quiet_refl [quiet_intros]: "quiet s s"
  by (simp add: quiet_def)

lemma quiet_trans: "quiet s t \<Longrightarrow> quiet t u \<Longrightarrow> quiet s u"
  by (auto simp: quiet_def)

lemma quiet_fold [quiet_intros]: "(\<And>x s. quiet s (f x s)) \<Longrightarrow> quiet s (fold f xs s)"
  by (induction xs arbitrary: s) (auto intro: quiet_refl quiet_trans)

lemma quiet_updSock [quiet_intros]: "(\<And>sc. conn_ok sc \<Longrightarrow> conn_ok (h sc)) \<Longrightarrow> quiet s (updSock c h s)"
  by (auto simp: quiet_def sm_core_def)

lemma quiet_fields [quiet_intros]:
  "quiet s (s\<lparr>sm_conns := m\<rparr>)" "quiet s (s\<lparr>sm_activeDials := d\<rparr>)" "quiet s (s\<lparr>sm_done := b\<rparr>)"
  "quiet s (s\<lparr>sm_conns := m, sm_activeDials := d\<rparr>)" "quiet s (s\<lparr>sm_resultHash := r\<rparr>)" "quiet s (s\<lparr>sm_syncs := n\<rparr>)"
  by (simp_all add: quiet_def sm_core_def)

lemma quiet_sends [quiet_intros]: "quiet s (closeConn c s)" "quiet s (sendTo m c s)" "quiet s (sendAllMappingsToConn c ms s)"
  by (auto simp: closeConn_def sendTo_def sendAllMappingsToConn_def
      intro!: quiet_updSock Close_ok sendOrClose_ok sendBatches_ok)

lemma quiet_sendPex [quiet_intros]: "quiet s (sendPexMessage c a s)"
  by (auto simp: sendPexMessage_def intro: quiet_intros split: option.splits prod.splits bool.splits)

lemma quiet_registerConn: "registerConn c a out s = (b, t) \<Longrightarrow> quiet s t"
  by (auto simp: registerConn_def Let_def split: option.splits if_splits
      intro: quiet_intros quiet_trans [OF quiet_sends(1) quiet_fields(4)] quiet_trans [OF quiet_sends(1) quiet_fields(1)])

lemma quiet_begin: "quiet s (snd (beginConnection c out m s))"
proof -
  have mark: "quiet s (updSock c (\<lambda>sc. sc\<lparr>sc_peerUUID := u, sc_isOutgoing := b\<rparr>) s)" for u b s
    by (rule quiet_updSock) (simp add: conn_ok_def)
  have reply: "quiet s (updSock c (\<lambda>_. sc) s)" if "trySend x (sm_socks s c) = (b, sc)" for x b sc
    using that trySend_ok [of "sm_socks s c" x] by (auto simp: quiet_def sm_core_def)
  have "quiet s t" if "acceptHandshake c out m s = (r, t)" for r t
    using that mark [THEN quiet_trans, OF quiet_registerConn]
    by (auto simp: acceptHandshake_def Let_def split: option.splits if_splits prod.splits bool.splits
        intro: quiet_refl quiet_trans [OF reply])
  then show ?thesis by (auto simp: beginConnection_def split: prod.splits option.splits
        intro: quiet_trans [OF _ quiet_sends(1)])
qed

lemma quiet_announce: "quiet s (announceConnection ks visit1 visit2 localIPs c selfAddr s)"
proof -
  have "quiet s (case sm_pool s of None \<Rightarrow> s | Some p \<Rightarrow> sendAllMappingsToConn c (GetAllMappings ks p) s)"
    by (auto intro: quiet_intros split: option.splits)
  moreover have "quiet s (case sm_conns s addr of None \<Rightarrow> s
      | Some o' \<Rightarrow> if addr \<noteq> selfAddr then sendPexMessage o' selfAddr s else s)" for addr s
    by (auto intro: quiet_intros split: option.splits)
  ultimately show ?thesis unfolding announceConnection_def Let_def
    by (intro quiet_fold quiet_trans [OF _ quiet_fold] quiet_sendPex)
qed

lemma quiet_cleanup: "quiet s (cleanupConnection c a s)"
  by (auto simp: cleanupConnection_def intro: quiet_intros quiet_trans [OF quiet_fields(1) quiet_sends(1)])

lemma quiet_broadcast: "quiet s (BroadcastMappings visit ms s)"
  by (auto simp: BroadcastMappings_def intro!: quiet_intros split: option.splits)

lemma quiet_tryConnect: "tryConnect now ips a s = (b, t) \<Longrightarrow> quiet s t"
  by (auto simp: tryConnect_def Let_def quiet_def sm_core_def split: if_splits)

lemma quiet_discover: "quiet s (snd (discoverAndConnect nows lookup localIPs s))"
proof -
  have "quiet s (snd (connectAll nows localIPs i ts s))" for i ts
    by (induction nows localIPs i ts s rule: connectAll.induct)
      (auto simp: Let_def split: prod.splits intro: quiet_refl quiet_trans [OF quiet_tryConnect])
  then show ?thesis by (simp add: discoverAndConnect_def)
qed

lemma quiet_dial: "quiet s (snd (dialPeer peerAddr outcome s))"
proof -
  have "conn_ok (NewSafeConn l r)" for l r by (simp add: conn_ok_def NewSafeConn_def)
  then have ok: "conn_ok sc" if "trySend m (NewSafeConn l r) = (b, sc)" for m l r b sc
    using that trySend_ok [of "NewSafeConn l r" m] by simp
  show ?thesis using ok
    by (auto simp: dialPeer_def Let_def split: option.splits prod.splits bool.splits
        intro!: quiet_fields quiet_trans [OF quiet_updSock quiet_fields(2)] Close_ok)
qed

lemma quiet_writer:
  "quiet s (updSock c (\<lambda>sc. w_sc (snd (writeLoop ev encOk flushOk \<lparr>w_sc = sc, w_wire = wire\<rparr>))) s)"
proof (rule quiet_updSock)
  fix sc assume sc: "conn_ok sc"
  have drain: "length q' \<le> length q" if "drainQueue encOk q ms = (e, q', ms')" for q ms e q' ms'
    using that by (induction encOk q ms rule: drainQueue.induct) (auto split: if_splits)
  have shorter: "conn_ok (sc\<lparr>sc_writeChan := q\<rparr>)" if "length q \<le> length (sc_writeChan sc)" for q
    using sc that by (simp add: conn_ok_def)
  show "conn_ok (w_sc (snd (writeLoop ev encOk flushOk \<lparr>w_sc = sc, w_wire = wire\<rparr>)))"
    using sc shorter
    by (cases ev) (auto simp: writeLoop_def Let_def Close_ok split: list.splits option.splits prod.splits drain_end.splits
        dest!: drain intro!: Close_ok)
qed

lemma quiet_close: "quiet s (SyncManager_Close visit s)"
proof -
  have "quiet s (case sm_conns s addr of None \<Rightarrow> s | Some c \<Rightarrow> closeConn c s)" for addr s
    by (auto intro: quiet_intros split: option.splits)
  then show ?thesis
    by (auto simp: SyncManager_Close_def intro: quiet_refl quiet_trans [OF quiet_fields(3) quiet_fold])
qed

lemmas quiet_ops = quiet_begin quiet_announce quiet_cleanup quiet_broadcast quiet_discover quiet_dial quiet_writer quiet_close

lemma quiet_node_inv: "quiet s t \<Longrightarrow> node_inv n4 n6 s \<Longrightarrow> node_inv n4 n6 t"
  by (simp add: quiet_def node_inv_def sm_core_def)

subsection \<open>Messages and local operations\<close>

lemma node_inv_pool:
  assumes "node_inv n4 n6 s" "sm_pool s = Some p"
    "ranged_pool n4 n6 p \<Longrightarrow> ranged_pool n4 n6 q"
  shows "node_inv n4 n6 (s\<lparr>sm_pool := Some q\<rparr>)"
  using assms by (simp add: node_inv_def)

lemma node_inv_nft: "node_inv n4 n6 s \<Longrightarrow> isInSubnet (Some f) s \<Longrightarrow> node_inv n4 n6 (nftAddMapping f r s)"
  by (auto simp: node_inv_def nftAddMapping_def isInSubnet_inRange)

lemma node_inv_handleMapping:
  assumes inv: "node_inv n4 n6 s" shows "node_inv n4 n6 (handleMapping clk e m s)"
proof -
  obtain p where p: "sm_pool s = Some p" "ranged_pool n4 n6 p" "sm_parsedNetV4 s = n4" "sm_parsedNetV6 s = n6"
    using inv by (auto simp: node_inv_def)
  have add: "ranged_pool n4 n6 (snd (AddMapping r f v e (ObserveVersion clk v p)))"
    if "ranged_pool n4 n6 p" "inRange n4 n6 f" for r f v n4 n6
  proof (rule ranged_AddMapping [OF ranged_extend [OF that(1)] that(2)])
    show "same_config p (ObserveVersion clk v p)" by (simp add: ObserveVersion_def Let_def config_prims)
  qed (auto simp: ObserveVersion_def Let_def)
  have new: "node_inv n4 n6 (s\<lparr>sm_pool := Some q\<rparr>)"
    if "AddMapping r f v e (ObserveVersion clk v p) = (b, q)" "isInSubnet (Some f) s" for r f v b q
    by (rule node_inv_pool [OF inv p(1)]) (use add [of n4 n6 f r v] that p in \<open>simp add: isInSubnet_inRange\<close>)
  have sub: "isInSubnet (Some f) (s\<lparr>sm_pool := q\<rparr>) = isInSubnet (Some f) s" for f q by (simp add: isInSubnet_inRange)
  show ?thesis using inv p(1) new
    by (auto simp: handleMapping_def sub split: option.splits prod.splits bool.splits intro!: node_inv_nft)
qed

lemma node_inv_handleMappings: "node_inv n4 n6 s \<Longrightarrow> node_inv n4 n6 (handleMappings clk e i ms s)"
  by (induction clk e i ms s rule: handleMappings.induct) (simp_all add: node_inv_handleMapping)

lemma node_inv_message: "node_inv n4 n6 s \<Longrightarrow> node_inv n4 n6 (snd (handleMessage now nows clk localIPs m s))"
  using quiet_node_inv [OF quiet_tryConnect] quiet_node_inv [OF quiet_fields(6)]
  by (auto simp: handleMessage_def Let_def intro!: node_inv_handleMappings split: option.splits prod.splits bool.splits)

lemma node_step_inv: "node_step s t \<Longrightarrow> node_inv n4 n6 s \<Longrightarrow> node_inv n4 n6 t"
proof (induction rule: node_step.induct)
  case (node_alloc s p v6flag now clk' realIP)
  then show ?case using node_inv_pool ranged_alloc by blast
next
  case (node_remove s p realIP fakeIP)
  then show ?case using ranged_extend [OF _ config_RemoveMapping] table_RemoveMapping node_inv_pool by blast
next
  case (node_prune s p now i pairs)
  then show ?case
    using ranged_extend [OF _ config_prune_delete [OF same_config_refl]] table_prune_delete node_inv_pool by blast
next
  case (node_accept s c localAddr remoteAddr)
  then show ?case by (auto simp: conn_ok_def NewSafeConn_def intro!: quiet_node_inv [OF quiet_updSock])
next
  case (node_refresh s h1 h2)
  then show ?case unfolding RefreshResultHash_def by (rule quiet_node_inv [OF quiet_fields(5)])
qed (auto intro: node_inv_message quiet_ops [THEN quiet_node_inv])

interpretation node_runs: invariant_system node_step "node_inv n4 n6"
  for n4 n6
  by unfold_locales (rule node_step_inv)

lemma node_inv_New:
  assumes new: "p = NewIPPoolWithConfig b4 b6 cfg"
    and size: "2 \<le> unat (poolSize p)" "unat (poolSize p) \<le> 2 ^ 17 \<or> poolStart p \<noteq> 0xC6120000"
    and base6: "To4 (poolStart6 p) = None"
  shows "node_inv (poolNet4 p) (poolNet6 p)
    (NewSyncManager peers port (GetPoolNet p) (GetPoolNet6 p) (Some p) token fingerprints hashes now)"
proof -
  have "ranged_pool (poolNet4 p) (poolNet6 p) p"
    using New_aligned4 [OF new size(2)] New_aligned6 [OF new base6] ceil_log2_pos [OF size(1)]
    by (auto simp: ranged_pool_def new)
  then show ?thesis
    by (simp add: node_inv_def NewSyncManager_def RefreshResultHash_def poolNet4_def poolNet6_def conn_ok_def NewSafeConn_def)
qed



end
