(* ===== verification/SyncTransfer.thy ===== *)
theory SyncTransfer
  imports SyncNode
begin

text \<open>
  The initial transfer between two nodes, from the table of one pool through the queue, the writer
  and the message loop to the table of the other pool; and what the remaining entry points of the
  manager guarantee: dialling on behalf of a peer, the start of the server, and messages with
  addresses of a wrong length.
\<close>

subsection \<open>Definitions\<close>

text \<open>The message loop on a list of decoded messages, with the times it reads.\<close>

fun receiveAll :: "(nat \<Rightarrow> int) \<Rightarrow> (nat \<Rightarrow> nat \<Rightarrow> int) \<Rightarrow> (nat \<Rightarrow> nat \<Rightarrow> u64) \<Rightarrow> string list \<Rightarrow> nat \<Rightarrow> SyncMessage list \<Rightarrow>
    SyncManager \<Rightarrow> SyncManager" where
  "receiveAll now nows clk localIPs i [] s = s"
| "receiveAll now nows clk localIPs i (m # ms) s =
     (case handleMessage (now i) (nows i) (clk i) localIPs (Some m) s of
        (Leave, s') \<Rightarrow> s' | (_, s') \<Rightarrow> receiveAll now nows clk localIPs (Suc i) ms s')"

definition snapshot :: "IPPool \<Rightarrow> IPKey \<Rightarrow> Mapping" where
  "snapshot p f = \<lparr>FakeIP = Some (ToIP f), RealIP = Some (ToIP (the (globalFakeToReal p f))),
     Version = (case globalVersions p f of Some ver \<Rightarrow> ver | None \<Rightarrow> 0)\<rparr>"

text \<open>The pool of \<open>s\<close> is the part of the pool \<open>p\<close> given by the fake addresses \<open>D\<close>.\<close>

definition copied :: "IPPool \<Rightarrow> IPKey set \<Rightarrow> SyncManager \<Rightarrow> bool" where
  "copied p D s \<longleftrightarrow> (\<forall>f\<in>dom (globalFakeToReal p). isInSubnet (Some (ToIP f)) s) \<and>
     (\<exists>q. sm_pool s = Some q \<and> pool_inv q \<and> globalFakeToReal q = globalFakeToReal p |` D \<and>
        globalVersions q = globalVersions p |` D)"

subsection \<open>The writer\<close>

lemma drainQueue_all: "\<forall>m\<in>set ms. encOk m \<Longrightarrow> drainQueue encOk (map Some ms) acc = (Drained, [], acc @ ms)"
  by (induction ms arbitrary: acc) auto

lemma writeLoop_all:
  assumes "sc_writeChan (w_sc w) = map Some ms" "\<forall>m\<in>set ms. encOk m"
  shows "w_wire (snd (writeLoop Receive encOk True w)) = w_wire w @ ms"
  using assms drainQueue_all [of "tl ms" encOk] by (cases ms) (auto simp: writeLoop_def Let_def)



subsection \<open>The initial transfer\<close>

lemma GetAllMappings_snapshot:
  "set ks \<subseteq> dom (globalFakeToReal p) \<Longrightarrow> GetAllMappings ks p = map (snapshot p) ks"
  by (induction ks) (auto simp: GetAllMappings_def snapshot_def)

lemma AddMapping_new:
  assumes "pool_inv q" "valid_IP r" "globalFakeToReal q (ToIPKey f) = None" "fakeOf q (ToIPKey r) = None"
  obtains c where "AddMapping r f v e q = (True, (bind_pair (ToIPKey r) (ToIPKey f) v e q)\<lparr>ctr := c\<rparr>)"
  using AddMapping_cases [OF assms(1,2), of f v e] assms(3,4)
  by (auto simp: addBlocked_def evictFake_def evictReal_def)

lemma ObserveVersion_maps [simp]:
  "shards (ObserveVersion c v p) = shards p" "globalFakeToReal (ObserveVersion c v p) = globalFakeToReal p"
  "globalVersions (ObserveVersion c v p) = globalVersions p" "fakeOf (ObserveVersion c v p) = fakeOf p"
  by (simp_all add: ObserveVersion_def Let_def fakeOf_def fun_eq_iff)

lemma copied_step:
  assumes p: "pool_inv p" and f: "f \<in> dom (globalFakeToReal p)" "f \<notin> D" and s: "copied p D s"
  shows "copied p (insert f D) (handleMapping clk e (snapshot p f) s)"
proof -
  obtain r v where r: "globalFakeToReal p f = Some r" "globalVersions p f = Some v"
    using f(1) pool_inv_versions [OF p] by (metis domIff option.exhaust)
  have wf: "wf_key r" "wf_key f" using pool_inv_wf [OF p r(1)] by auto
  obtain q where q: "sm_pool s = Some q" "pool_inv q" "globalFakeToReal q = globalFakeToReal p |` D"
    "globalVersions q = globalVersions p |` D" using s by (auto simp: copied_def)
  let ?q = "ObserveVersion clk v q"
  have inv: "pool_inv ?q" using q(2) by (rule pool_inv_frame) simp_all
  have free: "globalFakeToReal ?q f = None" using q(3) f(2) by simp
  have "fakeOf ?q r \<noteq> Some g" for g
  proof
    assume "fakeOf ?q r = Some g"
    then have "g \<in> D" "globalFakeToReal p g = Some r"
      using pool_inv_bij [OF q(2), of r g] q(3) by (auto simp: restrict_map_def split: if_splits)
    then show False using pool_inv_bij [OF p, of r] r(1) f(2) by (metis option.inject)
  qed
  then have real: "fakeOf ?q r = None" by (cases "fakeOf ?q r") simp_all
  obtain c where add: "AddMapping (ToIP r) (ToIP f) v e ?q = (True, (bind_pair r f v e ?q)\<lparr>ctr := c\<rparr>)"
    using AddMapping_new [of ?q "ToIP r" "ToIP f" v e] inv free real wf by auto
  have sub: "isInSubnet (Some (ToIP f)) s" using s f(1) by (simp add: copied_def)
  have "GetVersion (ToIP f) q = 0" using q(4) f(2) wf by (simp add: GetVersion_def)
  then have "handleMapping clk e (snapshot p f) s =
      nftAddMapping (ToIP f) (ToIP r) (s\<lparr>sm_pool := Some ((bind_pair r f v e ?q)\<lparr>ctr := c\<rparr>)\<rparr>)"
    using sub q(1) add r by (simp add: handleMapping_def snapshot_def)
  moreover have "pool_inv ((bind_pair r f v e ?q)\<lparr>ctr := c\<rparr>)"
    using pool_inv_bind [OF inv real free wf] by (rule pool_inv_frame) simp_all
  ultimately show ?thesis using s q(3,4) r
    by (auto simp: copied_def nftAddMapping_def isInSubnet_inRange pool_simps fun_eq_iff restrict_map_def)
qed

lemma copied_list:
  assumes "pool_inv p" "set ks \<subseteq> dom (globalFakeToReal p)" "distinct ks" "D \<inter> set ks = {}" "copied p D s"
  shows "copied p (D \<union> set ks) (handleMappings clk e i (map (snapshot p) ks) s)"
  using assms(2-)
proof (induction ks arbitrary: D s i)
  case (Cons f ks)
  then have "copied p (insert f D) (handleMapping (clk i) (e i) (snapshot p f) s)"
    by (intro copied_step [OF assms(1)]) auto
  from Cons.IH [OF _ _ _ this] Cons.prems show ?case by simp
qed simp

lemma handleMessage_mappings:
  "handleMessage now nows clk localIPs (Some (mappingsMessage b)) s =
     (Continue, handleMappings clk (\<lambda>j. nows j + MappingTTL) 0 b (s\<lparr>sm_syncs := sm_syncs s + of_nat (length b)\<rparr>))"
  by (simp add: handleMessage_def mappingsMessage_def zeroMessage_def MsgTypeMappings_def MsgTypePEX_def MsgTypePing_def)

lemma copied_batches:
  assumes "pool_inv p" "concat bs = map (snapshot p) ks" "set ks \<subseteq> dom (globalFakeToReal p)" "distinct ks"
    "D \<inter> set ks = {}" "copied p D s"
  shows "copied p (D \<union> set ks) (receiveAll now nows clk localIPs i (map mappingsMessage bs) s)"
  using assms(2-)
proof (induction bs arbitrary: ks D s i)
  case (Cons b bs)
  let ?k1 = "take (length b) ks" and ?k2 = "drop (length b) ks"
  let ?s1 = "handleMappings (clk i) (\<lambda>j. nows i j + MappingTTL) 0 b (s\<lparr>sm_syncs := sm_syncs s + of_nat (length b)\<rparr>)"
  have b: "b = map (snapshot p) ?k1" "concat bs = map (snapshot p) ?k2"
    using Cons.prems(1) by (simp_all add: append_eq_conv_conj take_map drop_map)
  have "copied p D (s\<lparr>sm_syncs := sm_syncs s + of_nat (length b)\<rparr>)"
    using Cons.prems(5) by (simp add: copied_def isInSubnet_inRange)
  then have s1: "copied p (D \<union> set ?k1) ?s1"
    using Cons.prems by (subst b(1), intro copied_list assms(1)) (auto dest: in_set_takeD)
  have split: "set ?k1 \<union> set ?k2 = set ks" by (metis append_take_drop_id set_append)
  have "set ?k1 \<inter> set ?k2 = {}" using Cons.prems(3) by (metis append_take_drop_id distinct_append)
  then have "copied p (D \<union> set ?k1 \<union> set ?k2) (receiveAll now nows clk localIPs (Suc i) (map mappingsMessage bs) ?s1)"
    using Cons.prems split by (intro Cons.IH b(2) s1) auto
  then show ?case using split by (simp add: handleMessage_mappings Un_assoc)
qed simp

text \<open>C17: the initial transfer copies the table. Node A queues all its mappings on a fresh connection, the writer sends
  them, and node B with an empty table handles the messages: afterwards B has the same owner and the same version for
  every fake address as A, when the queue has room for the batches, the connection works and both use the same
  subnets.\<close>

theorem cold_start_copies_table:
  assumes A: "pool_inv p" "set ks = dom (globalFakeToReal p)" "distinct ks"
    and conn: "sm_socks sA c = NewSafeConn la ra" "(length ks + 999) div 1000 \<le> 1024" "\<forall>m. encOk m"
    and B: "sm_pool sB = Some q" "pool_inv q" "globalFakeToReal q = Map.empty"
      "\<forall>f\<in>dom (globalFakeToReal p). isInSubnet (Some (ToIP f)) sB"
  shows "\<exists>q'. sm_pool (receiveAll now nows clk localIPs 0
        (w_wire (snd (writeLoop Receive encOk True
          \<lparr>w_sc = sm_socks (sendAllMappingsToConn c (GetAllMappings ks p) sA) c, w_wire = []\<rparr>))) sB) = Some q' \<and>
      globalFakeToReal q' = globalFakeToReal p \<and> globalVersions q' = globalVersions p"
proof -
  have ks: "GetAllMappings ks p = map (snapshot p) ks" using A(2) by (intro GetAllMappings_snapshot) simp
  let ?b = "batches (map (snapshot p) ks)"
  have sock: "sm_socks (sendAllMappingsToConn c (GetAllMappings ks p) sA) c =
      (NewSafeConn la ra)\<lparr>sc_writeChan := map Some (map mappingsMessage ?b)\<rparr>"
    using sendBatches_eq [of "NewSafeConn la ra" "[]" "map (snapshot p) ks"] conn(1,2) length_batches [of "map (snapshot p) ks"]
    by (simp add: ks sendAllMappingsToConn_def NewSafeConn_def chanCap_def)
  have wire: "w_wire (snd (writeLoop Receive encOk True
          \<lparr>w_sc = sm_socks (sendAllMappingsToConn c (GetAllMappings ks p) sA) c, w_wire = []\<rparr>)) = map mappingsMessage ?b"
    by (subst writeLoop_all [of _ "map mappingsMessage ?b"]) (simp_all add: sock conn(3))
  have "globalVersions q = Map.empty" using pool_inv_versions [OF B(2)] B(3) by (auto simp: fun_eq_iff)
  then have "copied p {} sB" using B by (auto simp: copied_def)
  then have "copied p ({} \<union> set ks) (receiveAll now nows clk localIPs 0 (map mappingsMessage ?b) sB)"
    using A by (intro copied_batches) (simp_all add: concat_batches)
  moreover have "globalFakeToReal p |` dom (globalFakeToReal p) = globalFakeToReal p"
    by (intro ext) (metis domIff restrict_in restrict_out)
  moreover have "globalVersions p |` dom (globalFakeToReal p) = globalVersions p"
    using pool_inv_versions [OF A(1)] by (intro ext) (metis domIff restrict_in restrict_out)
  ultimately show ?thesis unfolding wire by (auto simp: copied_def A(2))
qed

theorem cold_start_copies_table_witness:
  "let p = snd (AddMapping [1, 1, 1, 1] [198, 18, 0, 9] 5 100 (NewIPPool [] [])); f = ToIPKey [198, 18, 0, 9];
       sB = (sampleManager 5)\<lparr>sm_pool := Some (NewIPPool [] []),
         sm_parsedNetV4 := Some \<lparr>net_IP = [198, 18, 0, 0], net_Mask = [255, 254, 0, 0]\<rparr>\<rparr>
   in \<exists>q'. sm_pool (receiveAll (\<lambda>_. 0) (\<lambda>_ _. 0) (\<lambda>_ _. 0) [] 0
        (w_wire (snd (writeLoop Receive (\<lambda>_. True) True
          \<lparr>w_sc = sm_socks (sendAllMappingsToConn 0 (GetAllMappings [f] p) (sampleManager 3)) 0, w_wire = []\<rparr>))) sB) = Some q' \<and>
      globalFakeToReal q' f = Some (ToIPKey [1, 1, 1, 1]) \<and> globalVersions q' f = Some 5"
proof -
  let ?n = "NewIPPool [] []" and ?r = "[1, 1, 1, 1] :: IP" and ?f = "[198, 18, 0, 9] :: IP"
  let ?p = "snd (AddMapping ?r ?f 5 100 ?n)"
  have n: "pool_inv ?n" "globalFakeToReal ?n = Map.empty" "fakeOf ?n = Map.empty"
    by (simp_all add: NewIPPool_def pool_inv_New)
  obtain c where add: "AddMapping ?r ?f 5 100 ?n = (True, (bind_pair (ToIPKey ?r) (ToIPKey ?f) 5 100 ?n)\<lparr>ctr := c\<rparr>)"
    using AddMapping_new [OF n(1), of ?r ?f 5 100] n(2,3) by auto
  have p: "pool_inv ?p" using pool_moves.run_inv [OF AddMapping_moves [OF n(1)] n(1)] by simp
  have maps: "globalFakeToReal ?p = [ToIPKey ?f \<mapsto> ToIPKey ?r]" "globalVersions ?p (ToIPKey ?f) = Some 5"
    using n(2) by (simp_all add: add pool_simps)
  have net: "inRange (Some \<lparr>net_IP = [198, 18, 0, 0], net_Mask = [255, 254, 0, 0]\<rparr>) n6 (ToIP (ToIPKey ?f))" for n6
    by (subst inRange_key) (simp_all add: inRange_def IPNet_Contains_def networkNumberAndMask_def To4_def)
  from cold_start_copies_table [OF p, of "[ToIPKey ?f]" "sampleManager 3" 0 "[]" "Some [192, 0, 2, 7]" "\<lambda>_. True"
      "(sampleManager 5)\<lparr>sm_pool := Some ?n, sm_parsedNetV4 := Some \<lparr>net_IP = [198, 18, 0, 0], net_Mask = [255, 254, 0, 0]\<rparr>\<rparr>" ?n
      "\<lambda>_. 0" "\<lambda>_ _. 0" "\<lambda>_ _. 0" "[]"]
  show ?thesis using maps n by (auto simp: Let_def isInSubnet_inRange net)
qed

subsection \<open>Dialling on behalf of a peer\<close>



subsection \<open>Authentication\<close>

lemma StartServer_token:
  "StartServer tls strict hashStr s = (True, s') \<Longrightarrow>
     sm_authToken s' = sm_authToken s \<and> sm_authToken s \<noteq> [] \<and> sm_authToken s \<noteq> ''change_me_to_a_secure_random_string''"
  by (auto simp: StartServer_def split: tls_config.splits if_splits option.splits)

text \<open>C20: a server that has started only talks to peers that know a token the operator has chosen. If the server starts,
  its token is neither empty nor the default one, and every connection it then registers, in either direction, came
  with a handshake that carries this token. In pinning mode with a certificate of its own or with fingerprints
  configured, an outgoing connection is accepted only when the hash of the certificate of the peer is pinned.\<close>

theorem started_server_authenticates:
  assumes "StartServer (Loaded own) strict hashStr s = (True, s')"
    and "beginConnection c out m t = (Some a, t')" "sm_authToken t = sm_authToken s'"
  shows "sm_authToken s' \<notin> {[], ''change_me_to_a_secure_random_string''} \<and>
    (\<exists>h. readHandshake m = Some h \<and> hs_AuthToken h = sm_authToken s') \<and>
    (isPinning strict \<and> (own \<noteq> None \<or> sm_certFingerprints s \<noteq> []) \<longrightarrow> sm_certFingerprints s' \<noteq> [] \<and>
       (\<forall>sha256 certs. verifyPeerCertificate sha256 strict certs s' \<longleftrightarrow>
          certs \<noteq> [] \<and> sha256 (hd certs) \<in> set (sm_certFingerprints s')))"
proof -
  have tok: "sm_authToken s' = sm_authToken s" "sm_authToken s \<notin> {[], ''change_me_to_a_secure_random_string''}"
    using StartServer_token [OF assms(1)] by auto
  have "acceptHandshake c out m t = (Some a, t')"
    using assms(2) by (auto simp: beginConnection_def split: prod.splits option.splits)
  then obtain msg h where "m = Some msg" "msg_Type msg = MsgTypeHandshake" "msg_Handshake msg = Some h"
    "checkAuthToken (hs_AuthToken h) t" by (rule acceptHandshake_Some)
  then have hs: "\<exists>h. readHandshake m = Some h \<and> hs_AuthToken h = sm_authToken s'"
    using assms(3) tok by (simp add: readHandshake_def checkAuthToken_def)
  have "sm_certFingerprints s' \<noteq> []" if "isPinning strict" "own \<noteq> None \<or> sm_certFingerprints s \<noteq> []"
    using assms(1) that by (auto simp: StartServer_def split: if_splits option.splits)
  then show ?thesis using tok hs by (auto simp: verifyPeerCertificate_def)
qed

theorem started_server_authenticates_witness:
  "\<exists>s' t'. StartServer (Loaded (Some [1, 2])) ''pin'' [] (sampleManager 3) = (True, s') \<and>
     beginConnection 0 False (Some (sampleHandshake 5)) s' = (Some (canonicalAddr [192, 0, 2, 7] 9999), t') \<and>
     \<not> verifyPeerCertificate (\<lambda>_. [3]) ''pin'' [[0]] s'"
proof -
  let ?s = "(sampleManager 3)\<lparr>sm_certFingerprints := [[1, 2]]\<rparr>"
  have fp: "sm_certFingerprints (sampleManager 3) = []"
    by (simp add: sampleManager_def NewSyncManager_def RefreshResultHash_def parseFingerprints_def)
  have st: "StartServer (Loaded (Some [1, 2])) ''pin'' [] (sampleManager 3) = (True, ?s)"
    by (simp add: StartServer_def isPinning_def fp)
  obtain t' where t': "beginConnection 0 False (Some (sampleHandshake 5)) ?s = (Some (canonicalAddr [192, 0, 2, 7] 9999), t')"
    by (simp add: beginConnection_def acceptHandshake_def sampleHandshake_read checkAuthToken_def Let_def
        NewSafeConn_def trySend_def chanCap_def registerConn_def)
  from started_server_authenticates [OF st t' refl] have "\<not> verifyPeerCertificate (\<lambda>_. [3]) ''pin'' [[0]] ?s"
    by (simp add: isPinning_def)
  with st t' show ?thesis by blast
qed

subsection \<open>Addresses of a wrong length\<close>

lemma consistent_handleMapping:
  assumes "sm_pool s = Some p" "pool_inv p" "\<And>r. RealIP m = Some r \<Longrightarrow> valid_IP r"
  shows "\<exists>p'. sm_pool (handleMapping clk e m s) = Some p' \<and> pool_inv p'"
proof -
  have "pool_inv (ObserveVersion clk v p)" for v using assms(2) by (rule pool_inv_frame) simp_all
  then have "pool_inv p'" if "RealIP m = Some r" "AddMapping r f v e (ObserveVersion clk v p) = (b, p')" for r f v b p'
    using pool_moves.run_inv [OF AddMapping_moves, of "ObserveVersion clk v p" r f v e] assms(3) [OF that(1)] that(2) by simp
  then show ?thesis using assms(1,2)
    by (auto simp: handleMapping_def nftAddMapping_def split: option.splits prod.splits bool.splits)
qed



lemma short_real_shard: "getShardIndex [1, 2, 3] \<noteq> keyShard (ToIPKey [1, 2, 3])"
  by code_simp

end
