(* ===== verification/Proxy.thy ===== *)
theory Proxy
  imports Sync
begin

text \<open>
  The DNS proxy (\<^verbatim>\<open>internal/dnsengine/proxy.go\<close>): a request is resolved upstream, the addresses in the response
  are replaced by fake addresses of the pool, and the mappings are published to the packet filter and to
  the peers in the background. Messages are values of the DNS library; the model keeps the parts the proxy
  inspects. Exchanges with the upstream resolvers are parameters. The pool is reached through a
  pointer that the manager of the peers shares; \<open>dp_pool\<close> is what the pointer refers to.
\<close>

subsection \<open>Messages\<close>

text \<open>A parameter of a service binding record: the hints, or any other value with its key.\<close>

datatype SVCBKeyValue = SVCBIPv4Hint "IP list" | SVCBIPv6Hint "IP list" | SVCBOther nat string

definition SVCB_IPV4HINT :: nat where "SVCB_IPV4HINT = 4"
definition SVCB_IPV6HINT :: nat where "SVCB_IPV6HINT = 6"

fun Key :: "SVCBKeyValue \<Rightarrow> nat" where
  "Key (SVCBIPv4Hint _) = SVCB_IPV4HINT"
| "Key (SVCBIPv6Hint _) = SVCB_IPV6HINT"
| "Key (SVCBOther k _) = k"

datatype rdata = A IP | AAAA IP | SVCB "SVCBKeyValue list" | HTTPS "SVCBKeyValue list"
  | RRSIG string | NSEC string | NSEC3 string | OtherRR string

record RR =
  rr_Name :: string
  rr_Ttl :: u32
  rr_data :: rdata

record DNSMsg =
  Question :: "string list"
  Answer :: "RR list"
  Ns :: "RR list"
  Extra :: "RR list"
  AuthenticatedData :: bool
  Truncated :: bool

subsection \<open>State\<close>

text \<open>\<open>dp_nftClient\<close> is \<^const>\<open>None\<close> for a nil client, else the list of calls made so far.\<close>

record DNSProxy =
  dp_pool :: IPPool
  dp_nftClient :: "(IP \<times> IP \<times> int) list option"
  dp_syncMgr :: "SyncManager option"
  dp_upstreams :: "string list"
  dp_maxTTL :: u32
  dp_enableIPv6 :: bool

definition NewDNSProxy :: "string \<Rightarrow> IPPool \<Rightarrow> (IP \<times> IP \<times> int) list option \<Rightarrow> SyncManager option \<Rightarrow> u32 \<Rightarrow> bool \<Rightarrow> DNSProxy" where
  "NewDNSProxy upstreamAddr pl nft mgr maxTTL enableIPv6 =
     \<lparr>dp_pool = pl, dp_nftClient = nft, dp_syncMgr = mgr, dp_upstreams = [upstreamAddr], dp_maxTTL = maxTTL,
      dp_enableIPv6 = enableIPv6\<rparr>"

text \<open>\<^verbatim>\<open>UpdatePool\<close>; the first component is the old pool after it has been closed.\<close>

definition UpdatePool :: "IPPool \<Rightarrow> DNSProxy \<Rightarrow> IPPool option \<times> DNSProxy" where
  "UpdatePool newPool px = (Close (dp_pool px), px\<lparr>dp_pool := newPool\<rparr>)"

subsection \<open>Upstream resolution\<close>

text \<open>\<open>udp u k\<close> and \<open>tcp u k\<close> are the outcomes of the exchanges of attempt \<open>k\<close> with upstream \<open>u\<close>.\<close>

definition exchange :: "(string \<Rightarrow> nat \<Rightarrow> DNSMsg option) \<Rightarrow> (string \<Rightarrow> nat \<Rightarrow> DNSMsg option) \<Rightarrow> string \<Rightarrow> nat \<Rightarrow> DNSMsg option" where
  "exchange udp tcp u k =
     (case udp u k of None \<Rightarrow> None
      | Some resp \<Rightarrow> if Truncated resp then (case tcp u k of Some respTCP \<Rightarrow> Some respTCP | None \<Rightarrow> Some resp) else Some resp)"

text \<open>The result is the response, and whether the returned error is non-nil (\<^verbatim>\<open>lastErr\<close>).\<close>

fun resolveUpstream :: "(string \<Rightarrow> nat \<Rightarrow> DNSMsg option) \<Rightarrow> (string \<Rightarrow> nat \<Rightarrow> DNSMsg option) \<Rightarrow> string list \<Rightarrow> bool \<Rightarrow> DNSMsg option \<times> bool" where
  "resolveUpstream udp tcp [] lastErr = (None, lastErr)"
| "resolveUpstream udp tcp (u # us) lastErr =
     (case exchange udp tcp u 0 of
        Some resp \<Rightarrow> (Some resp, False)
      | None \<Rightarrow>
          (case exchange udp tcp u 1 of
             Some resp \<Rightarrow> (Some resp, False)
           | None \<Rightarrow> resolveUpstream udp tcp us True))"

subsection \<open>Addresses in a response\<close>

definition addV4 :: "IP \<Rightarrow> IP list \<Rightarrow> IP list" where
  "addV4 ip realV4 =
     (case To4 ip of None \<Rightarrow> realV4
      | Some ip4 \<Rightarrow>
          if IP_Equal ip4 (IPv4 0 0 0 0) then realV4
          else if list_ex (\<lambda>existing. IP_Equal existing ip4) realV4 then realV4
          else realV4 @ [ip4])"

definition addV6 :: "bool \<Rightarrow> IP \<Rightarrow> IP list \<Rightarrow> IP list" where
  "addV6 enableIPv6 ip realV6 =
     (if \<not> enableIPv6 then realV6
      else if To4 ip \<noteq> None then realV6
      else if IP_Equal ip IPv6zero then realV6
      else if list_ex (\<lambda>existing. IP_Equal existing ip) realV6 then realV6
      else realV6 @ [ip])"

fun extractSVCBHint :: "bool \<Rightarrow> SVCBKeyValue \<Rightarrow> IP list \<times> IP list \<Rightarrow> IP list \<times> IP list" where
  "extractSVCBHint enableIPv6 (SVCBIPv4Hint hint) (v4s, v6s) = (fold addV4 hint v4s, v6s)"
| "extractSVCBHint enableIPv6 (SVCBIPv6Hint hint) (v4s, v6s) =
     (v4s, if \<not> enableIPv6 then v6s else fold (addV6 enableIPv6) hint v6s)"
| "extractSVCBHint enableIPv6 (SVCBOther k v) acc = acc"

fun collectIPs :: "bool \<Rightarrow> rdata \<Rightarrow> IP list \<times> IP list \<Rightarrow> IP list \<times> IP list" where
  "collectIPs enableIPv6 (A ip) (v4s, v6s) = (addV4 ip v4s, v6s)"
| "collectIPs enableIPv6 (AAAA ip) (v4s, v6s) = (v4s, addV6 enableIPv6 ip v6s)"
| "collectIPs enableIPv6 (SVCB kvs) acc = fold (extractSVCBHint enableIPv6) kvs acc"
| "collectIPs enableIPv6 (HTTPS kvs) acc = fold (extractSVCBHint enableIPv6) kvs acc"
| "collectIPs enableIPv6 _ acc = acc"

definition collectAll :: "bool \<Rightarrow> DNSMsg \<Rightarrow> IP list \<times> IP list" where
  "collectAll enableIPv6 resp =
     fold (\<lambda>rr. collectIPs enableIPv6 (rr_data rr)) (Answer resp @ Ns resp @ Extra resp) ([], [])"

subsection \<open>Rewriting\<close>

fun patchHints :: "result_map \<Rightarrow> IP list \<Rightarrow> IP list" where
  "patchHints m [] = []"
| "patchHints m (ip # ips) =
     (case map_of m (IP_String ip) of Some fake \<Rightarrow> fake # patchHints m ips | None \<Rightarrow> patchHints m ips)"

fun patchSVCBValues :: "result_map \<Rightarrow> result_map \<Rightarrow> bool \<Rightarrow> SVCBKeyValue list \<Rightarrow> SVCBKeyValue list" where
  "patchSVCBValues mapV4 mapV6 enableIPv6 [] = []"
| "patchSVCBValues mapV4 mapV6 enableIPv6 (kv # kvs) =
     (if Key kv = SVCB_IPV4HINT then
        (case kv of SVCBIPv4Hint hint \<Rightarrow> SVCBIPv4Hint (patchHints mapV4 hint) | _ \<Rightarrow> kv)
          # patchSVCBValues mapV4 mapV6 enableIPv6 kvs
      else if Key kv = SVCB_IPV6HINT then
        (if \<not> enableIPv6 then patchSVCBValues mapV4 mapV6 enableIPv6 kvs
         else (case kv of SVCBIPv6Hint hint \<Rightarrow> SVCBIPv6Hint (patchHints mapV6 hint) | _ \<Rightarrow> kv)
           # patchSVCBValues mapV4 mapV6 enableIPv6 kvs)
      else kv # patchSVCBValues mapV4 mapV6 enableIPv6 kvs)"

definition capTtl :: "u32 \<Rightarrow> RR \<Rightarrow> RR" where
  "capTtl maxTTL rr = rr\<lparr>rr_Ttl := min (rr_Ttl rr) maxTTL\<rparr>"

fun filterRRs :: "u32 \<Rightarrow> bool \<Rightarrow> result_map \<Rightarrow> result_map \<Rightarrow> RR list \<Rightarrow> RR list" where
  "filterRRs maxTTL enableIPv6 mapV4 mapV6 [] = []"
| "filterRRs maxTTL enableIPv6 mapV4 mapV6 (rr # rrs) =
     (let rest = filterRRs maxTTL enableIPv6 mapV4 mapV6 rrs
      in case rr_data rr of
           A ip \<Rightarrow>
             (case map_of mapV4 (IP_String ip) of
                Some fake \<Rightarrow> capTtl maxTTL (rr\<lparr>rr_data := A fake\<rparr>) # rest
              | None \<Rightarrow> rr # rest)
         | AAAA ip \<Rightarrow>
             if \<not> enableIPv6 then rest
             else (case map_of mapV6 (IP_String ip) of
                Some fake \<Rightarrow> capTtl maxTTL (rr\<lparr>rr_data := AAAA fake\<rparr>) # rest
              | None \<Rightarrow> rr # rest)
         | SVCB kvs \<Rightarrow> capTtl maxTTL (rr\<lparr>rr_data := SVCB (patchSVCBValues mapV4 mapV6 enableIPv6 kvs)\<rparr>) # rest
         | HTTPS kvs \<Rightarrow> capTtl maxTTL (rr\<lparr>rr_data := HTTPS (patchSVCBValues mapV4 mapV6 enableIPv6 kvs)\<rparr>) # rest
         | RRSIG _ \<Rightarrow> rest
         | NSEC _ \<Rightarrow> rest
         | NSEC3 _ \<Rightarrow> rest
         | OtherRR _ \<Rightarrow> rr # rest)"

subsection \<open>The handler\<close>

text \<open>What is written back: an empty reply (\<^verbatim>\<open>SetReply\<close>), a failure (\<^verbatim>\<open>HandleFailed\<close>), or a response.
  \<open>Crash\<close> is the dereference of a nil response.\<close>

datatype reply = EmptyReply | Failure | Response DNSMsg | Crash

text \<open>The maps the background goroutine works on.\<close>

record publication =
  pb_mapV4 :: result_map
  pb_newV4 :: new_map
  pb_mapV6 :: result_map
  pb_newV6 :: new_map

text \<open>What the handler reads from its environment: the clocks and the iteration orders of the two batches, and
  the iteration order of the rollback.\<close>

record dns_env =
  env_now4 :: int
  env_clk4 :: "nat \<Rightarrow> u64"
  env_perm4 :: "new_map \<Rightarrow> new_map"
  env_now6 :: int
  env_clk6 :: "nat \<Rightarrow> u64"
  env_perm6 :: "new_map \<Rightarrow> new_map"
  env_permR :: "new_map \<Rightarrow> new_map"

definition isHealthcheck :: "DNSMsg \<Rightarrow> bool" where
  "isHealthcheck r \<longleftrightarrow> length (Question r) = 0 \<or>
     length (Question r) = 1 \<and> (Question r ! 0 = ''.'' \<or> Question r ! 0 = ''healthcheck.nextpath.'')"

definition incDNSQueries :: "IPPool \<Rightarrow> IPPool" where
  "incDNSQueries p = p\<lparr>ctr := (ctr p)\<lparr>MetricsDNSQueries := MetricsDNSQueries (ctr p) + 1\<rparr>\<rparr>"

definition incDNSErrors :: "IPPool \<Rightarrow> IPPool" where
  "incDNSErrors p = p\<lparr>ctr := (ctr p)\<lparr>MetricsDNSErrors := MetricsDNSErrors (ctr p) + 1\<rparr>\<rparr>"

text \<open>An empty list of addresses is not passed to the pool.\<close>

definition allocateFamily ::
  "(new_map \<Rightarrow> new_map) \<Rightarrow> int \<Rightarrow> (nat \<Rightarrow> u64) \<Rightarrow> IP list \<Rightarrow> bool \<Rightarrow> IPPool \<Rightarrow> (result_map \<times> new_map) option \<times> IPPool" where
  "allocateFamily perm now clk reals v6flag p =
     (if reals \<noteq> [] then GetFakeIPsForReals perm now clk reals v6flag p else (Some ([], []), p))"

definition allocateAddresses ::
  "dns_env \<Rightarrow> IP list \<Rightarrow> IP list \<Rightarrow> IPPool \<Rightarrow> publication option \<times> IPPool" where
  "allocateAddresses env realV4 realV6 p =
     (case allocateFamily (env_perm4 env) (env_now4 env) (env_clk4 env) realV4 False p of
        (None, p1) \<Rightarrow> (None, p1)
      | (Some (mapV4, newV4), p1) \<Rightarrow>
          (case allocateFamily (env_perm6 env) (env_now6 env) (env_clk6 env) realV6 True p1 of
             (None, p2) \<Rightarrow> (None, rollback (env_permR env newV4) p2)
           | (Some (mapV6, newV6), p2) \<Rightarrow>
               (Some \<lparr>pb_mapV4 = mapV4, pb_newV4 = newV4, pb_mapV6 = mapV6, pb_newV6 = newV6\<rparr>, p2)))"

definition rewriteResponse :: "u32 \<Rightarrow> bool \<Rightarrow> publication \<Rightarrow> DNSMsg \<Rightarrow> DNSMsg" where
  "rewriteResponse maxTTL enableIPv6 pb resp =
     (let f = filterRRs maxTTL enableIPv6 (pb_mapV4 pb) (pb_mapV6 pb)
      in resp\<lparr>Answer := f (Answer resp), Ns := f (Ns resp), Extra := f (Extra resp), AuthenticatedData := False\<rparr>)"

definition handleDNSRequest ::
  "dns_env \<Rightarrow> (string \<Rightarrow> nat \<Rightarrow> DNSMsg option) \<Rightarrow> (string \<Rightarrow> nat \<Rightarrow> DNSMsg option) \<Rightarrow> DNSMsg \<Rightarrow> DNSProxy
     \<Rightarrow> (reply \<times> publication option) \<times> DNSProxy" where
  "handleDNSRequest env udp tcp r px0 =
     (let px = px0\<lparr>dp_pool := incDNSQueries (dp_pool px0)\<rparr>
      in if isHealthcheck r then ((EmptyReply, None), px)
         else case resolveUpstream udp tcp (dp_upstreams px) False of
           (_, True) \<Rightarrow> ((Failure, None), px\<lparr>dp_pool := incDNSErrors (dp_pool px)\<rparr>)
         | (None, False) \<Rightarrow> ((Crash, None), px)
         | (Some resp, False) \<Rightarrow>
             let (realV4, realV6) = collectAll (dp_enableIPv6 px) resp
             in case allocateAddresses env realV4 realV6 (dp_pool px) of
                  (None, p) \<Rightarrow> ((Failure, None), px\<lparr>dp_pool := p\<rparr>)
                | (Some pb, p) \<Rightarrow>
                    ((Response (rewriteResponse (dp_maxTTL px) (dp_enableIPv6 px) pb resp), Some pb), px\<lparr>dp_pool := p\<rparr>))"

subsection \<open>Publication\<close>

text \<open>The calls of the packet filter client for one map, in the order of iteration.\<close>

fun nftEntries :: "(IP \<Rightarrow> IP option) \<Rightarrow> result_map \<Rightarrow> (IP \<times> IP \<times> int) list" where
  "nftEntries conv [] = []"
| "nftEntries conv ((realStr, fake) # es) =
     (case ParseIP realStr of None \<Rightarrow> nftEntries conv es
      | Some parsedIP \<Rightarrow> (fake, slice (conv parsedIP), MappingTTL) # nftEntries conv es)"

fun broadcastEntries :: "(IP \<Rightarrow> IP option) \<Rightarrow> new_map \<Rightarrow> Mapping list" where
  "broadcastEntries conv [] = []"
| "broadcastEntries conv ((realStr, info) # es) =
     (case ParseIP realStr of None \<Rightarrow> broadcastEntries conv es
      | Some parsedIP \<Rightarrow> \<lparr>FakeIP = Some (mi_IP info), RealIP = conv parsedIP, Version = mi_Version info\<rparr>
          # broadcastEntries conv es)"

text \<open>The goroutine; the maps are given in the order of their iteration, \<open>visit\<close> is that of the connections.\<close>

definition publishMappings :: "string list \<Rightarrow> publication \<Rightarrow> DNSProxy \<Rightarrow> DNSProxy" where
  "publishMappings visit pb px =
     (let calls = nftEntries To4 (pb_mapV4 pb) @ nftEntries To16 (pb_mapV6 pb);
          toBroadcast = broadcastEntries To4 (pb_newV4 pb) @ broadcastEntries To16 (pb_newV6 pb)
      in px\<lparr>dp_nftClient := map_option (\<lambda>cs. cs @ calls) (dp_nftClient px),
            dp_syncMgr := map_option (\<lambda>s. if toBroadcast \<noteq> [] then BroadcastMappings visit toBroadcast s else s) (dp_syncMgr px)\<rparr>)"

end
