(* ===== verification/ProxyProps.thy ===== *)
theory ProxyProps
  imports Proxy
begin

text \<open>
  What the DNS proxy guarantees: a response contains fake addresses in place of real ones, record
  by record; a request that fails leaves no mapping; and every fake address that a client sees is
  published to the packet filter.
\<close>

subsection \<open>Specification\<close>

text \<open>The addresses the proxy replaces: IPv4 addresses other than 0.0.0.0, and, when IPv6 is enabled, IPv6 addresses that
  are not IPv4-mapped and not unspecified.\<close>

definition real4 :: "IP \<Rightarrow> bool" where
  "real4 ip = (case To4 ip of None \<Rightarrow> False | Some ip4 \<Rightarrow> ip4 \<noteq> [0, 0, 0, 0])"

definition real6 :: "IP \<Rightarrow> bool" where
  "real6 ip \<longleftrightarrow> To4 ip = None \<and> ip \<noteq> IPv6zero"

fun hints4 :: "SVCBKeyValue \<Rightarrow> IP list" where
  "hints4 (SVCBIPv4Hint ips) = ips" | "hints4 _ = []"

fun hints6 :: "SVCBKeyValue \<Rightarrow> IP list" where
  "hints6 (SVCBIPv6Hint ips) = ips" | "hints6 _ = []"

fun addrs4 :: "rdata \<Rightarrow> IP list" where
  "addrs4 (A ip) = [ip]" | "addrs4 (SVCB kvs) = concat (map hints4 kvs)" | "addrs4 (HTTPS kvs) = concat (map hints4 kvs)"
| "addrs4 _ = []"

fun addrs6 :: "rdata \<Rightarrow> IP list" where
  "addrs6 (AAAA ip) = [ip]" | "addrs6 (SVCB kvs) = concat (map hints6 kvs)" | "addrs6 (HTTPS kvs) = concat (map hints6 kvs)"
| "addrs6 _ = []"

definition records :: "DNSMsg \<Rightarrow> RR list" where
  "records m = Answer m @ Ns m @ Extra m"

text \<open>Addresses unpacked from the wire have the length of their family, or that of an IPv4-mapped address.\<close>

definition wire_ok :: "DNSMsg \<Rightarrow> bool" where
  "wire_ok m \<longleftrightarrow> (\<forall>rr\<in>set (records m). (\<forall>ip\<in>set (addrs4 (rr_data rr)). valid_IP ip) \<and>
     (\<forall>ip\<in>set (addrs6 (rr_data rr)). length ip = 16))"

text \<open>\<open>stands_for q x y\<close>: the pool \<open>q\<close> maps the fake address \<open>y\<close> to the real address \<open>x\<close>.\<close>

definition stands_for :: "IPPool \<Rightarrow> IP \<Rightarrow> IP \<Rightarrow> bool" where
  "stands_for q x y \<longleftrightarrow> globalFakeToReal q (ToIPKey y) = Some (ToIPKey x)"

fun kv_rewritten :: "IPPool \<Rightarrow> SVCBKeyValue \<Rightarrow> SVCBKeyValue \<Rightarrow> bool" where
  "kv_rewritten q (SVCBIPv4Hint xs) kv \<longleftrightarrow> (\<exists>ys. kv = SVCBIPv4Hint ys \<and> list_all2 (stands_for q) (filter real4 xs) ys)"
| "kv_rewritten q (SVCBIPv6Hint xs) kv \<longleftrightarrow> (\<exists>ys. kv = SVCBIPv6Hint ys \<and> list_all2 (stands_for q) (filter real6 xs) ys)"
| "kv_rewritten q (SVCBOther k v) kv \<longleftrightarrow> kv = SVCBOther k v"

definition kv_kept :: "bool \<Rightarrow> SVCBKeyValue \<Rightarrow> bool" where
  "kv_kept enableIPv6 kv \<longleftrightarrow> Key kv = SVCB_IPV6HINT \<longrightarrow> enableIPv6"

definition kvs_rewritten :: "IPPool \<Rightarrow> bool \<Rightarrow> SVCBKeyValue list \<Rightarrow> SVCBKeyValue list \<Rightarrow> bool" where
  "kvs_rewritten q enableIPv6 kvs kvs' \<longleftrightarrow> list_all2 (kv_rewritten q) (filter (kv_kept enableIPv6) kvs) kvs'"

fun rr_kept :: "bool \<Rightarrow> rdata \<Rightarrow> bool" where
  "rr_kept enableIPv6 (AAAA _) = enableIPv6" | "rr_kept enableIPv6 (RRSIG _) = False" | "rr_kept enableIPv6 (NSEC _) = False"
| "rr_kept enableIPv6 (NSEC3 _) = False" | "rr_kept enableIPv6 _ = True"

text \<open>The rewriting of a record that is kept.\<close>

definition rr_rewritten :: "IPPool \<Rightarrow> bool \<Rightarrow> u32 \<Rightarrow> RR \<Rightarrow> RR \<Rightarrow> bool" where
  "rr_rewritten q enableIPv6 maxTTL rr rr' \<longleftrightarrow>
     (case rr_data rr of
        A x \<Rightarrow> if real4 x then \<exists>y. stands_for q x y \<and> rr' = capTtl maxTTL (rr\<lparr>rr_data := A y\<rparr>) else rr' = rr
      | AAAA x \<Rightarrow> if real6 x then \<exists>y. stands_for q x y \<and> rr' = capTtl maxTTL (rr\<lparr>rr_data := AAAA y\<rparr>) else rr' = rr
      | SVCB kvs \<Rightarrow> \<exists>kvs'. kvs_rewritten q enableIPv6 kvs kvs' \<and> rr' = capTtl maxTTL (rr\<lparr>rr_data := SVCB kvs'\<rparr>)
      | HTTPS kvs \<Rightarrow> \<exists>kvs'. kvs_rewritten q enableIPv6 kvs kvs' \<and> rr' = capTtl maxTTL (rr\<lparr>rr_data := HTTPS kvs'\<rparr>)
      | _ \<Rightarrow> rr' = rr)"

definition rrs_rewritten :: "IPPool \<Rightarrow> bool \<Rightarrow> u32 \<Rightarrow> RR list \<Rightarrow> RR list \<Rightarrow> bool" where
  "rrs_rewritten q enableIPv6 maxTTL rrs rrs' \<longleftrightarrow>
     list_all2 (rr_rewritten q enableIPv6 maxTTL) (filter (\<lambda>rr. rr_kept enableIPv6 (rr_data rr)) rrs) rrs'"

subsection \<open>Collected addresses\<close>

lemma set_addV4:
  assumes "\<forall>x\<in>set l. length x = 4"
  shows "set (addV4 ip l) = set l \<union> (if real4 ip then {the (To4 ip)} else {})"
proof (cases "To4 ip")
  case (Some ip4)
  then have len: "length ip4 = 4" by (rule To4_To16(2))
  then have z: "IP_Equal ip4 (IPv4 0 0 0 0) \<longleftrightarrow> ip4 = [0, 0, 0, 0]" by (simp add: IP_Equal_def IPv4_def)
  have "list_ex (\<lambda>e. IP_Equal e ip4) l \<longleftrightarrow> ip4 \<in> set l" using assms len by (auto simp: list_ex_iff IP_Equal_def)
  then show ?thesis using z Some by (auto simp: addV4_def real4_def)
qed (simp add: addV4_def real4_def)

lemma addV4_len: "\<forall>x\<in>set l. length x = 4 \<Longrightarrow> \<forall>x\<in>set (addV4 ip l). length x = 4"
  by (auto simp: addV4_def split: option.splits dest: To4_To16(2))

lemma set_addV6:
  assumes "\<forall>x\<in>set l. length x = 16" "length ip = 16"
  shows "set (addV6 enableIPv6 ip l) = set l \<union> (if enableIPv6 \<and> real6 ip then {ip} else {})"
proof -
  have "IP_Equal ip IPv6zero \<longleftrightarrow> ip = IPv6zero" using assms(2) by (simp add: IP_Equal_def IPv6zero_def)
  moreover have "list_ex (\<lambda>e. IP_Equal e ip) l \<longleftrightarrow> ip \<in> set l" using assms by (auto simp: list_ex_iff IP_Equal_def)
  ultimately show ?thesis by (auto simp: addV6_def real6_def)
qed

text \<open>\<open>collected\<close>: the two lists hold the addresses to replace among \<open>xs\<close> and \<open>ys\<close>.\<close>

definition collected :: "bool \<Rightarrow> IP set \<Rightarrow> IP set \<Rightarrow> IP list \<times> IP list \<Rightarrow> bool" where
  "collected enableIPv6 xs ys acc \<longleftrightarrow>
     (\<forall>x\<in>set (fst acc). length x = 4) \<and> set (fst acc) = (the \<circ> To4) ` Set.filter real4 xs \<and>
     (\<forall>y\<in>set (snd acc). length y = 16) \<and> set (snd acc) = (if enableIPv6 then Set.filter real6 ys else {})"

lemma collected_V4: "collected e xs ys (a, b) \<Longrightarrow> collected e (insert ip xs) ys (addV4 ip a, b)"
  using addV4_len [of a ip] set_addV4 [of a ip] by (auto simp: collected_def)

lemma collected_V6: "collected e xs ys (a, b) \<Longrightarrow> length ip = 16 \<Longrightarrow> collected e xs (insert ip ys) (a, addV6 e ip b)"
  using set_addV6 [of b ip e] by (auto simp: collected_def split: if_splits)

lemma collected_V4s: "collected e xs ys (a, b) \<Longrightarrow> collected e (xs \<union> set ips) ys (fold addV4 ips a, b)"
proof (induction ips arbitrary: a xs)
  case (Cons ip ips)
  from Cons.IH [OF collected_V4 [OF Cons.prems, of ip]] show ?case by simp
qed simp

lemma collected_V6s:
  "collected e xs ys (a, b) \<Longrightarrow> \<forall>ip\<in>set ips. length ip = 16 \<Longrightarrow> collected e xs (ys \<union> set ips) (a, fold (addV6 e) ips b)"
proof (induction ips arbitrary: b ys)
  case (Cons ip ips)
  from Cons.IH [OF collected_V6 [OF Cons.prems(1), of ip]] Cons.prems(2) show ?case by simp
qed simp

lemma collected_hint:
  assumes "collected e xs ys acc" "\<forall>ip\<in>set (hints6 kv). length ip = 16"
  shows "collected e (xs \<union> set (hints4 kv)) (ys \<union> set (hints6 kv)) (extractSVCBHint e kv acc)"
proof -
  obtain a b where acc: "acc = (a, b)" by fastforce
  show ?thesis using assms collected_V4s [of e xs ys a b] collected_V6s [of e xs ys a b]
    by (cases kv) (auto simp: acc collected_def)
qed

lemma collected_hints:
  "collected e xs ys acc \<Longrightarrow> \<forall>ip\<in>set (concat (map hints6 kvs)). length ip = 16 \<Longrightarrow>
     collected e (xs \<union> set (concat (map hints4 kvs))) (ys \<union> set (concat (map hints6 kvs))) (fold (extractSVCBHint e) kvs acc)"
proof (induction kvs arbitrary: xs ys acc)
  case (Cons kv kvs)
  have "collected e (xs \<union> set (hints4 kv)) (ys \<union> set (hints6 kv)) (extractSVCBHint e kv acc)"
    using Cons.prems by (intro collected_hint) auto
  from Cons.IH [OF this] Cons.prems(2) show ?case by (simp add: Un_assoc)
qed simp

lemma collected_rr:
  assumes "collected e xs ys acc" "\<forall>ip\<in>set (addrs6 d). length ip = 16"
  shows "collected e (xs \<union> set (addrs4 d)) (ys \<union> set (addrs6 d)) (collectIPs e d acc)"
proof -
  obtain a b where acc: "acc = (a, b)" by fastforce
  show ?thesis using assms collected_V4 [of e xs ys a b] collected_V6 [of e xs ys a b] collected_hints [OF assms(1)]
    by (cases d) (auto simp: acc)
qed

lemma collected_all:
  assumes "wire_ok resp"
  shows "collected e (\<Union>rr\<in>set (records resp). set (addrs4 (rr_data rr))) (\<Union>rr\<in>set (records resp). set (addrs6 (rr_data rr)))
    (collectAll e resp)"
proof -
  have "collected e (xs \<union> (\<Union>rr\<in>set rrs. set (addrs4 (rr_data rr)))) (ys \<union> (\<Union>rr\<in>set rrs. set (addrs6 (rr_data rr))))
      (fold (\<lambda>rr. collectIPs e (rr_data rr)) rrs acc)"
    if "collected e xs ys acc" "\<forall>rr\<in>set rrs. \<forall>ip\<in>set (addrs6 (rr_data rr)). length ip = 16" for xs ys rrs acc
    using that
  proof (induction rrs arbitrary: xs ys acc)
    case (Cons rr rrs)
    from Cons.IH [OF collected_rr [OF Cons.prems(1)]] Cons.prems(2) show ?case by (simp add: Un_assoc)
  qed simp
  from this [of "{}" "{}" "([], [])" "records resp"] show ?thesis
    using assms by (simp add: collectAll_def records_def wire_ok_def collected_def)
qed

subsection \<open>Allocation\<close>

lemma To4_key: "valid_IP a \<Longrightarrow> valid_IP b \<Longrightarrow> ToIPKey a = ToIPKey b \<Longrightarrow> To4 a = To4 b"
proof -
  assume "valid_IP a" "valid_IP b" "ToIPKey a = ToIPKey b"
  moreover have "To4 x = To4 (the (To16 x))" if "valid_IP x" for x
    using that by (auto simp: To16_def) (simp add: To4_def)
  ultimately show ?thesis using ToIPKey_eq_iff [of a b] by metis
qed

lemma key_To4: "To4 a = Some b \<Longrightarrow> ToIPKey b = ToIPKey a \<and> valid_IP b"
  using To4_To16(2) [of a b] by (auto simp: ToIPKey_def To4_def)

lemma real4_key: "valid_IP a \<Longrightarrow> valid_IP b \<Longrightarrow> ToIPKey a = ToIPKey b \<Longrightarrow> real4 a = real4 b"
  by (simp add: real4_def To4_key [of a b])

lemma key_family: "isIPv6 (ToIPKey ip) \<longleftrightarrow> To4 ip = None"
  by (simp add: ToIPKey_def split: option.splits)

lemma served_lookup:
  assumes srv: "served now reals q m" and val: "\<forall>d\<in>set reals. valid_IP d" "valid_IP ip"
  shows "case map_of m (IP_String ip) of
      Some y \<Rightarrow> ToIPKey ip \<in> ToIPKey ` set reals \<and> fakeOf q (ToIPKey ip) = Some (ToIPKey y)
    | None \<Rightarrow> ToIPKey ip \<notin> ToIPKey ` set reals"
proof (cases "ToIPKey ip \<in> ToIPKey ` set reals")
  case True
  then obtain d where d: "d \<in> set reals" "ToIPKey d = ToIPKey ip" by auto
  then have "IP_String d = IP_String ip" using val IP_String_eq_iff by auto
  with srv d True show ?thesis by (auto simp: served_def split: option.splits)
next
  case False
  then have "IP_String ip \<notin> IP_String ` set reals" using val IP_String_eq_iff by auto
  with srv False show ?thesis by (auto simp: served_def map_of_eq_None_iff split: option.splits)
qed

lemma allocateFamily_effect:
  assumes inv: "pool_inv p" and val: "\<forall>d\<in>set reals. valid_IP d" and perm: "\<And>m. mset (perm m) = mset m"
    and res: "allocateFamily perm now clk reals v6flag p = (r, q)"
  shows "pool_inv q" "k \<notin> ToIPKey ` set reals \<Longrightarrow> fakeOf q k = fakeOf p k"
    "r = Some (m, new) \<Longrightarrow> served now reals q m \<and> tracked now p reals q new"
    "r = None \<Longrightarrow> fakeOf q k = fakeOf p k \<or> fakeOf q k = None \<and> lapsed now p k"
    "r = Some (m, new) \<Longrightarrow> k \<notin> ToIPKey ` set reals \<Longrightarrow> lapsed t q k = lapsed t p k"
proof -
  have *: "pool_inv q \<and> (k \<notin> ToIPKey ` set reals \<longrightarrow> fakeOf q k = fakeOf p k) \<and>
    (\<forall>m new. r = Some (m, new) \<longrightarrow> served now reals q m \<and> tracked now p reals q new) \<and>
    (r = None \<longrightarrow> fakeOf q k = fakeOf p k \<or> fakeOf q k = None \<and> lapsed now p k) \<and>
    (r \<noteq> None \<and> k \<notin> ToIPKey ` set reals \<longrightarrow> lapsed t q k = lapsed t p k)"
  proof (cases "reals = []")
    case True
    then show ?thesis using res inv by (auto simp: allocateFamily_def)
  next
    case False
    then have get: "GetFakeIPsForReals perm now clk reals v6flag p = (r, q)" using res by (simp add: allocateFamily_def)
    show ?thesis
    proof (cases r)
      case None
      then show ?thesis using batch_failure [OF inv val perm get [unfolded None]] by blast
    next
      case (Some mn)
      obtain m new where mn: "mn = (m, new)" by fastforce
      note b = batch_success [OF inv val get [unfolded Some mn]]
      have "k \<notin> ToIPKey ` set reals \<Longrightarrow> fakeOf q k = fakeOf p k" using b(2) by (simp add: tracked_def)
      then show ?thesis using Some mn b lapsed_cong [of q k p t] by auto
    qed
  qed
  then show "pool_inv q" "k \<notin> ToIPKey ` set reals \<Longrightarrow> fakeOf q k = fakeOf p k"
    "r = Some (m, new) \<Longrightarrow> served now reals q m \<and> tracked now p reals q new"
    "r = None \<Longrightarrow> fakeOf q k = fakeOf p k \<or> fakeOf q k = None \<and> lapsed now p k"
    "r = Some (m, new) \<Longrightarrow> k \<notin> ToIPKey ` set reals \<Longrightarrow> lapsed t q k = lapsed t p k" by blast+
qed

text \<open>\<open>resolves q P xs m\<close>: in the map \<open>m\<close> an address of \<open>xs\<close> has an entry exactly when \<open>P\<close> holds, and the entry stands for it.\<close>

definition resolves :: "IPPool \<Rightarrow> (IP \<Rightarrow> bool) \<Rightarrow> IP set \<Rightarrow> result_map \<Rightarrow> bool" where
  "resolves q P xs m \<longleftrightarrow> (\<forall>ip\<in>xs. case map_of m (IP_String ip) of Some y \<Rightarrow> P ip \<and> stands_for q ip y | None \<Rightarrow> \<not> P ip)"

lemma resolves_served:
  assumes "served now reals q0 m" "\<forall>d\<in>set reals. valid_IP d" "pool_inv q" "\<forall>ip\<in>xs. valid_IP ip"
    "\<And>ip. ip \<in> xs \<Longrightarrow> ToIPKey ip \<in> ToIPKey ` set reals \<longleftrightarrow> P ip" "\<And>d. d \<in> set reals \<Longrightarrow> fakeOf q (ToIPKey d) = fakeOf q0 (ToIPKey d)"
  shows "resolves q P xs m"
  unfolding resolves_def
proof
  fix ip assume ip: "ip \<in> xs"
  have "fakeOf q (ToIPKey ip) = fakeOf q0 (ToIPKey ip)" if "ToIPKey ip \<in> ToIPKey ` set reals" using that assms(6) by auto
  then show "case map_of m (IP_String ip) of Some y \<Rightarrow> P ip \<and> stands_for q ip y | None \<Rightarrow> \<not> P ip"
    using served_lookup [OF assms(1,2), of ip] assms(4,5) ip
    by (auto simp: stands_for_def pool_inv_bij [OF assms(3), symmetric] split: option.splits)
qed

lemma keys4:
  assumes "set reals = (the \<circ> To4) ` Set.filter real4 xs" "\<forall>ip\<in>xs. valid_IP ip" "ip \<in> xs"
  shows "ToIPKey ip \<in> ToIPKey ` set reals \<longleftrightarrow> real4 ip"
proof
  have conv: "ToIPKey (the (To4 x)) = ToIPKey x" if "real4 x" for x
    using that key_To4 [of x] by (auto simp: real4_def split: option.splits)
  show "real4 ip \<Longrightarrow> ToIPKey ip \<in> ToIPKey ` set reals" using assms conv [of ip] by (force simp: image_iff)
  assume "ToIPKey ip \<in> ToIPKey ` set reals"
  then obtain x where "x \<in> xs" "real4 x" "ToIPKey ip = ToIPKey x" using assms(1) conv by auto
  then show "real4 ip" using real4_key [of ip x] assms(2,3) by auto
qed

lemma keys6:
  assumes "set reals = (if e then Set.filter real6 xs else {})" "\<forall>ip\<in>xs. length ip = 16" "ip \<in> xs"
  shows "ToIPKey ip \<in> ToIPKey ` set reals \<longleftrightarrow> e \<and> real6 ip"
proof -
  have "inj_on ToIPKey xs"
    using assms(2) by (intro inj_onI) (simp add: ToIPKey_eq_iff To16_def)
  from inj_on_image_mem_iff [OF this assms(3), of "Set.filter real6 xs"] show ?thesis using assms(1,3) by auto
qed

definition fair_env :: "dns_env \<Rightarrow> bool" where
  "fair_env env \<longleftrightarrow> (\<forall>m. mset (env_perm4 env m) = mset m \<and> mset (env_perm6 env m) = mset m \<and> mset (env_permR env m) = mset m)"

text \<open>The two lists of a response: valid addresses of disjoint families.\<close>

lemma collected_lists:
  assumes "collected e xs ys (v4s, v6s)"
  shows "\<forall>d\<in>set v4s. valid_IP d" "\<forall>d\<in>set v6s. valid_IP d" "ToIPKey ` set v4s \<inter> ToIPKey ` set v6s = {}"
proof -
  show "\<forall>d\<in>set v4s. valid_IP d" "\<forall>d\<in>set v6s. valid_IP d" using assms by (auto simp: collected_def)
  have "\<not> isIPv6 (ToIPKey d)" if "d \<in> set v4s" for d
  proof -
    have "length d = 4" using assms that by (simp add: collected_def)
    then show ?thesis by (simp add: key_family To4_def)
  qed
  moreover have "isIPv6 (ToIPKey d)" if "d \<in> set v6s" for d
  proof -
    have "real6 d" using assms that by (simp add: collected_def split: if_splits)
    then show ?thesis by (simp add: key_family real6_def)
  qed
  ultimately show "ToIPKey ` set v4s \<inter> ToIPKey ` set v6s = {}" by force
qed

lemma allocate_success:
  assumes inv: "pool_inv p" and col: "collected e xs ys (v4s, v6s)" and env: "fair_env env"
    and val: "\<forall>x\<in>xs. valid_IP x" "\<forall>y\<in>ys. length y = 16"
    and res: "allocateAddresses env v4s v6s p = (Some pb, q)"
  shows "pool_inv q" "resolves q real4 xs (pb_mapV4 pb)" "resolves q (\<lambda>y. e \<and> real6 y) ys (pb_mapV6 pb)"
    "served (env_now6 env) v6s q (pb_mapV6 pb)" "\<exists>p1. served (env_now4 env) v4s p1 (pb_mapV4 pb) \<and> (\<forall>k\<in>ToIPKey ` set v4s. fakeOf q k = fakeOf p1 k)"
proof -
  note l = collected_lists [OF col]
  have perm: "\<And>m. mset (env_perm4 env m) = mset m" "\<And>m. mset (env_perm6 env m) = mset m" using env by (auto simp: fair_env_def)
  from res obtain p1 where
    a4: "allocateFamily (env_perm4 env) (env_now4 env) (env_clk4 env) v4s False p = (Some (pb_mapV4 pb, pb_newV4 pb), p1)"
    and a6: "allocateFamily (env_perm6 env) (env_now6 env) (env_clk6 env) v6s True p1 = (Some (pb_mapV6 pb, pb_newV6 pb), q)"
    by (auto simp: allocateAddresses_def split: prod.splits option.splits)
  note e4 = allocateFamily_effect [OF inv l(1) perm(1) a4]
  note e6 = allocateFamily_effect [OF e4(1) l(2) perm(2) a6]
  show q: "pool_inv q" by (rule e6(1))
  have v4: "served (env_now4 env) v4s p1 (pb_mapV4 pb)" using e4(3) by blast
  show v6: "served (env_now6 env) v6s q (pb_mapV6 pb)" using e6(3) by blast
  have same: "fakeOf q (ToIPKey d) = fakeOf p1 (ToIPKey d)" if "d \<in> set v4s" for d using e6(2) l(3) that by blast
  then show "\<exists>p1. served (env_now4 env) v4s p1 (pb_mapV4 pb) \<and> (\<forall>k\<in>ToIPKey ` set v4s. fakeOf q k = fakeOf p1 k)" using v4 by auto
  have s4: "set v4s = (the \<circ> To4) ` Set.filter real4 xs" and s6: "set v6s = (if e then Set.filter real6 ys else {})"
    using col by (auto simp: collected_def)
  have vy: "\<forall>y\<in>ys. valid_IP y" using val(2) by simp
  show "resolves q real4 xs (pb_mapV4 pb)"
    by (rule resolves_served [OF v4 l(1) q val(1) keys4 [OF s4 val(1)] same])
  show "resolves q (\<lambda>y. e \<and> real6 y) ys (pb_mapV6 pb)"
    by (rule resolves_served [OF v6 l(2) q vy keys6 [OF s6 val(2)] refl])
qed

lemma allocate_failure:
  assumes inv: "pool_inv p" and col: "collected e xs ys (v4s, v6s)" and env: "fair_env env"
    and res: "allocateAddresses env v4s v6s p = (None, q)"
  shows "fakeOf q k = fakeOf p k \<or> fakeOf q k = None \<and> (lapsed (env_now4 env) p k \<or> lapsed (env_now6 env) p k)"
proof -
  note l = collected_lists [OF col]
  have perm: "\<And>m. mset (env_perm4 env m) = mset m" "\<And>m. mset (env_perm6 env m) = mset m" "\<And>m. mset (env_permR env m) = mset m"
    using env by (auto simp: fair_env_def)
  obtain r p1 where a4: "allocateFamily (env_perm4 env) (env_now4 env) (env_clk4 env) v4s False p = (r, p1)" by fastforce
  note e4 = allocateFamily_effect [OF inv l(1) perm(1) a4]
  show ?thesis
  proof (cases r)
    case None
    then show ?thesis using e4(4) [of k] res a4 by (auto simp: allocateAddresses_def)
  next
    case (Some mn)
    then obtain m new where r: "r = Some (m, new)" by (metis prod.exhaust)
    obtain r6 p2 where a6: "allocateFamily (env_perm6 env) (env_now6 env) (env_clk6 env) v6s True p1 = (r6, p2)" by fastforce
    note e6 = allocateFamily_effect [OF e4(1) l(2) perm(2) a6]
    have q: "r6 = None" "q = rollback (env_permR env new) p2"
      using res a4 a6 r by (auto simp: allocateAddresses_def split: option.splits)
    have tr: "tracked (env_now4 env) p v4s p1 new" using e4(3) [OF r] ..
    have keys: "entryKey ` fst ` set new \<subseteq> ToIPKey ` set v4s" using tracked_new(1) [OF tr] l(1) by fastforce
    have eff: "fakeOf q k = (if k \<in> entryKey ` fst ` set new then None else fakeOf p2 k)"
      unfolding q by (subst rollback_tracked [OF tr l(1) e6(1) perm(3)]) (use e6(2) keys l(3) in blast, simp)
    show ?thesis
    proof (cases "k \<in> ToIPKey ` set v4s")
      case True
      then have "fakeOf p2 k = fakeOf p1 k" using e6(2) l(3) by blast
      then show ?thesis using eff tracked_new(3) [OF tr] tracked_old(1) [OF tr, of k] by auto
    next
      case False
      then have "fakeOf p1 k = fakeOf p k" "lapsed (env_now6 env) p1 k = lapsed (env_now6 env) p k"
        using e4(2) e4(5) [OF r] by auto
      then show ?thesis using eff keys False e6(4) [OF q(1), of k] by auto
    qed
  qed
qed

subsection \<open>Rewriting\<close>

lemma patchHints_rewritten:
  "resolves q P xs m \<Longrightarrow> set ips \<subseteq> xs \<Longrightarrow> list_all2 (stands_for q) (filter P ips) (patchHints m ips)"
proof (induction ips)
  case (Cons ip ips)
  then have "case map_of m (IP_String ip) of Some y \<Rightarrow> P ip \<and> stands_for q ip y | None \<Rightarrow> \<not> P ip"
    by (simp add: resolves_def)
  with Cons show ?case by (auto split: option.splits)
qed simp

lemma patchSVCBValues_rewritten:
  assumes "resolves q real4 xs m4" "resolves q (\<lambda>y. e \<and> real6 y) ys m6"
    "set (concat (map hints4 kvs)) \<subseteq> xs" "set (concat (map hints6 kvs)) \<subseteq> ys"
  shows "kvs_rewritten q e kvs (patchSVCBValues m4 m6 e kvs)"
  using assms(3,4)
proof (induction kvs)
  case (Cons kv kvs)
  have ih: "list_all2 (kv_rewritten q) (filter (kv_kept e) kvs) (patchSVCBValues m4 m6 e kvs)"
    using Cons by (simp add: kvs_rewritten_def)
  show ?case
  proof (cases kv)
    case (SVCBIPv4Hint ips)
    then show ?thesis using ih patchHints_rewritten [OF assms(1), of ips] Cons.prems(1)
      by (simp add: kvs_rewritten_def kv_kept_def SVCB_IPV4HINT_def SVCB_IPV6HINT_def)
  next
    case (SVCBIPv6Hint ips)
    then show ?thesis using ih patchHints_rewritten [OF assms(2), of ips] Cons.prems(2)
      by (cases e) (simp_all add: kvs_rewritten_def kv_kept_def SVCB_IPV4HINT_def SVCB_IPV6HINT_def)
  next
    case (SVCBOther k v)
    then show ?thesis using ih by (cases e) (auto simp: kvs_rewritten_def kv_kept_def SVCB_IPV4HINT_def SVCB_IPV6HINT_def)
  qed
qed (simp add: kvs_rewritten_def)

lemma filterRRs_rewritten:
  assumes m: "resolves q real4 xs m4" "resolves q (\<lambda>y. e \<and> real6 y) ys m6"
    and sub: "\<forall>rr\<in>set rrs. set (addrs4 (rr_data rr)) \<subseteq> xs \<and> set (addrs6 (rr_data rr)) \<subseteq> ys"
  shows "rrs_rewritten q e maxTTL rrs (filterRRs maxTTL e m4 m6 rrs)"
  using sub
proof (induction rrs)
  case (Cons rr rrs)
  have ih: "rrs_rewritten q e maxTTL rrs (filterRRs maxTTL e m4 m6 rrs)" using Cons by simp
  have svcb: "kvs_rewritten q e kvs (patchSVCBValues m4 m6 e kvs)" if "rr_data rr \<in> {SVCB kvs, HTTPS kvs}" for kvs
    using Cons.prems that by (intro patchSVCBValues_rewritten [OF m]) (elim insertE; simp)+
  show ?case
  proof (cases "rr_data rr")
    case (A ip)
    then have "case map_of m4 (IP_String ip) of Some y \<Rightarrow> real4 ip \<and> stands_for q ip y | None \<Rightarrow> \<not> real4 ip"
      using m(1) Cons.prems by (simp add: resolves_def)
    then show ?thesis using ih A by (auto simp: rrs_rewritten_def rr_rewritten_def split: option.splits)
  next
    case (AAAA ip)
    then have "case map_of m6 (IP_String ip) of Some y \<Rightarrow> (e \<and> real6 ip) \<and> stands_for q ip y | None \<Rightarrow> \<not> (e \<and> real6 ip)"
      using m(2) Cons.prems by (simp add: resolves_def)
    then show ?thesis using ih AAAA by (auto simp: rrs_rewritten_def rr_rewritten_def split: option.splits)
  qed (use ih svcb in \<open>auto simp: rrs_rewritten_def rr_rewritten_def\<close>)
qed (simp add: rrs_rewritten_def)

subsection \<open>The handler\<close>

lemma counters_inv: "pool_inv (incDNSQueries p) = pool_inv p" "fakeOf (incDNSQueries p) = fakeOf p"
    "lapsed t (incDNSQueries p) = lapsed t p" "fakeOf (incDNSErrors p) = fakeOf p"
  by (simp_all add: incDNSQueries_def incDNSErrors_def pool_inv_def fakeOf_def expiryOf_def lapsed_def fun_eq_iff split: option.splits)

lemma handle_Response:
  assumes "handleDNSRequest env udp tcp r px = ((Response msg, job), px')"
    "resolveUpstream udp tcp (dp_upstreams px) False = (Some resp, err)"
  obtains v4s v6s pb where "collectAll (dp_enableIPv6 px) resp = (v4s, v6s)" "job = Some pb"
    "allocateAddresses env v4s v6s (incDNSQueries (dp_pool px)) = (Some pb, dp_pool px')"
    "msg = rewriteResponse (dp_maxTTL px) (dp_enableIPv6 px) pb resp" "dp_nftClient px' = dp_nftClient px"
  using assms by (auto simp: handleDNSRequest_def Let_def split: if_splits prod.splits option.splits bool.splits)

text \<open>C23: the proxy rewrites a response record by record and lets no replaced address through. In each section the
  records that are kept (all but DNSSEC signatures, denial-of-existence records and, without IPv6, AAAA records)
  appear in their order. An A or AAAA record with a real address carries a fake address that the pool maps to exactly this
  real address, with its TTL capped; hints of service bindings are replaced the same way and dropped where they are not
  real addresses; everything else is unchanged. The authenticated-data flag is cleared.\<close>

theorem response_rewritten:
  assumes inv: "pool_inv (dp_pool px)" and env: "fair_env env"
    and up: "resolveUpstream udp tcp (dp_upstreams px) False = (Some resp, err)" and wire: "wire_ok resp"
    and req: "handleDNSRequest env udp tcp r px = ((Response msg, job), px')"
  shows "rrs_rewritten (dp_pool px') (dp_enableIPv6 px) (dp_maxTTL px) (Answer resp) (Answer msg) \<and>
    rrs_rewritten (dp_pool px') (dp_enableIPv6 px) (dp_maxTTL px) (Ns resp) (Ns msg) \<and>
    rrs_rewritten (dp_pool px') (dp_enableIPv6 px) (dp_maxTTL px) (Extra resp) (Extra msg) \<and>
    \<not> AuthenticatedData msg \<and> Question msg = Question resp"
proof -
  from handle_Response [OF req up] obtain v4s v6s pb where h: "collectAll (dp_enableIPv6 px) resp = (v4s, v6s)"
    "allocateAddresses env v4s v6s (incDNSQueries (dp_pool px)) = (Some pb, dp_pool px')"
    "msg = rewriteResponse (dp_maxTTL px) (dp_enableIPv6 px) pb resp" by metis
  let ?xs = "\<Union>rr\<in>set (records resp). set (addrs4 (rr_data rr))" and ?ys = "\<Union>rr\<in>set (records resp). set (addrs6 (rr_data rr))"
  have col: "collected (dp_enableIPv6 px) ?xs ?ys (v4s, v6s)" using collected_all [OF wire] h(1) by metis
  have val: "\<forall>x\<in>?xs. valid_IP x" "\<forall>y\<in>?ys. length y = 16" using wire by (auto simp: wire_ok_def)
  have inv': "pool_inv (incDNSQueries (dp_pool px))" using inv by (simp add: counters_inv)
  note al = allocate_success [OF inv' col env val h(2)]
  have "rrs_rewritten (dp_pool px') (dp_enableIPv6 px) (dp_maxTTL px) rrs
      (filterRRs (dp_maxTTL px) (dp_enableIPv6 px) (pb_mapV4 pb) (pb_mapV6 pb) rrs)" if "set rrs \<subseteq> set (records resp)" for rrs
    using that by (intro filterRRs_rewritten [OF al(2,3)]) auto
  from this [of "Answer resp"] this [of "Ns resp"] this [of "Extra resp"] show ?thesis
    unfolding h(3) by (auto simp: rewriteResponse_def records_def Let_def)
qed

definition sampleEnv :: dns_env where
  "sampleEnv = \<lparr>env_now4 = 0, env_clk4 = (\<lambda>_. 7), env_perm4 = id, env_now6 = 0, env_clk6 = (\<lambda>_. 7), env_perm6 = id, env_permR = id\<rparr>"

definition sampleMsg :: "RR list \<Rightarrow> DNSMsg" where
  "sampleMsg rrs = \<lparr>Question = [''example.org.''], Answer = rrs, Ns = [], Extra = [], AuthenticatedData = True, Truncated = False\<rparr>"

definition sampleA :: RR where
  "sampleA = \<lparr>rr_Name = ''example.org.'', rr_Ttl = 3600, rr_data = A [1, 1, 1, 1]\<rparr>"

definition sampleProxy :: DNSProxy where
  "sampleProxy = NewDNSProxy ''up'' (NewIPPool [] []) (Some []) None 300 True"

lemma sample_request:
  obtains msg pb px' where "handleDNSRequest sampleEnv (\<lambda>_ _. Some (sampleMsg [sampleA])) tcp (sampleMsg []) sampleProxy =
      ((Response msg, Some pb), px')"
    "resolveUpstream (\<lambda>_ _. Some (sampleMsg [sampleA])) tcp (dp_upstreams sampleProxy) False = (Some (sampleMsg [sampleA]), False)"
    "pool_inv (dp_pool sampleProxy)" "fair_env sampleEnv" "wire_ok (sampleMsg [sampleA])"
proof -
  let ?p = "incDNSQueries (NewIPPool [] [])"
  have up: "resolveUpstream (\<lambda>_ _. Some (sampleMsg [sampleA])) tcp (dp_upstreams sampleProxy) False = (Some (sampleMsg [sampleA]), False)"
    by (simp add: sampleProxy_def NewDNSProxy_def exchange_def sampleMsg_def)
  have col: "collectAll True (sampleMsg [sampleA]) = ([[1, 1, 1, 1]], [])"
    by (simp add: collectAll_def sampleMsg_def sampleA_def addV4_def To4_def IP_Equal_def IPv4_def)
  have inv: "pool_inv (NewIPPool [] [])" by (simp add: NewIPPool_def pool_inv_New)
  have emp: "globalFakeToReal ?p = Map.empty" "fakeOf ?p = Map.empty"
    by (simp_all add: incDNSQueries_def NewIPPool_def counters_inv [unfolded incDNSQueries_def])
  have "lookup_fast 0 [1, 1, 1, 1] ?p = None" using emp by (simp add: lookup_fast_eq)
  moreover have "alloc_locked False 0 7 [1, 1, 1, 1] ?p = alloc_fresh False 0 7 [1, 1, 1, 1] ?p"
    using alloc_locked_eq [of ?p "[1, 1, 1, 1]"] inv emp by (simp add: counters_inv)
  ultimately obtain res new q where "GetFakeIPsForReals id 0 (\<lambda>_. 7) [[1, 1, 1, 1]] False ?p = (Some (res, new), q)"
    using emp by (simp add: GetFakeIPsForReals_def sortReals_def alloc_fresh_natural)
  then have "allocateAddresses sampleEnv [[1, 1, 1, 1]] [] ?p =
      (Some \<lparr>pb_mapV4 = res, pb_newV4 = new, pb_mapV6 = [], pb_newV6 = []\<rparr>, q)"
    by (simp add: allocateAddresses_def allocateFamily_def sampleEnv_def)
  then show ?thesis using that up col inv
    by (simp add: handleDNSRequest_def isHealthcheck_def fair_env_def sampleEnv_def wire_ok_def records_def Let_def)
      (simp add: sampleMsg_def sampleProxy_def NewDNSProxy_def sampleA_def)
qed

theorem response_rewritten_witness:
  "\<exists>msg y job px'. handleDNSRequest sampleEnv (\<lambda>_ _. Some (sampleMsg [sampleA])) (\<lambda>_ _. None) (sampleMsg []) sampleProxy =
      ((Response msg, job), px') \<and> Answer msg = [sampleA\<lparr>rr_Ttl := 300, rr_data := A y\<rparr>] \<and>
     globalFakeToReal (dp_pool px') (ToIPKey y) = Some (ToIPKey [1, 1, 1, 1])"
proof -
  obtain msg pb px' where h: "handleDNSRequest sampleEnv (\<lambda>_ _. Some (sampleMsg [sampleA])) (\<lambda>_ _. None) (sampleMsg []) sampleProxy =
      ((Response msg, Some pb), px')"
    "resolveUpstream (\<lambda>_ _. Some (sampleMsg [sampleA])) (\<lambda>_ _. None) (dp_upstreams sampleProxy) False = (Some (sampleMsg [sampleA]), False)"
    "pool_inv (dp_pool sampleProxy)" "fair_env sampleEnv" "wire_ok (sampleMsg [sampleA])"
    by (rule sample_request)
  have "real4 [1, 1, 1, 1]" by (simp add: real4_def To4_def)
  with response_rewritten [OF h(3,4,2,5,1)] h(1) show ?thesis
    by (auto simp: rrs_rewritten_def rr_rewritten_def sampleMsg_def sampleA_def stands_for_def capTtl_def
        sampleProxy_def NewDNSProxy_def list_all2_Cons1)
qed

text \<open>C24: a request that cannot be served leaves no mapping behind. When the handler answers with a failure, every real
  address has the fake address it had before, or it has none and its lease had lapsed: mappings that the IPv4 half of
  the request created are gone when the IPv6 half does not fit into the pool.\<close>

theorem failed_request_leaves_nothing:
  assumes inv: "pool_inv (dp_pool px)" and env: "fair_env env"
    and wire: "\<forall>resp err. resolveUpstream udp tcp (dp_upstreams px) False = (Some resp, err) \<longrightarrow> wire_ok resp"
    and req: "handleDNSRequest env udp tcp r px = ((Failure, job), px')"
  shows "job = None \<and> dp_nftClient px' = dp_nftClient px \<and> dp_syncMgr px' = dp_syncMgr px \<and>
    (fakeOf (dp_pool px') k = fakeOf (dp_pool px) k \<or>
     fakeOf (dp_pool px') k = None \<and> (lapsed (env_now4 env) (dp_pool px) k \<or> lapsed (env_now6 env) (dp_pool px) k))"
proof (cases "resolveUpstream udp tcp (dp_upstreams px) False")
  case (Pair o' err)
  show ?thesis
  proof (cases "err \<or> o' = None")
    case True
    then show ?thesis using req Pair
      by (auto simp: handleDNSRequest_def Let_def counters_inv split: if_splits option.splits bool.splits)
  next
    case False
    then obtain resp where resp: "resolveUpstream udp tcp (dp_upstreams px) False = (Some resp, False)" using Pair by auto
    obtain v4s v6s where col: "collectAll (dp_enableIPv6 px) resp = (v4s, v6s)" by fastforce
    have al: "allocateAddresses env v4s v6s (incDNSQueries (dp_pool px)) = (None, dp_pool px')" and rest:
      "job = None" "dp_nftClient px' = dp_nftClient px" "dp_syncMgr px' = dp_syncMgr px"
      using req resp col by (auto simp: handleDNSRequest_def Let_def split: if_splits prod.splits option.splits)
    have inv': "pool_inv (incDNSQueries (dp_pool px))" using inv by (simp add: counters_inv)
    have c: "collected (dp_enableIPv6 px) (\<Union>rr\<in>set (records resp). set (addrs4 (rr_data rr)))
        (\<Union>rr\<in>set (records resp). set (addrs6 (rr_data rr))) (v4s, v6s)"
      using collected_all [of resp "dp_enableIPv6 px"] wire resp col by auto
    from allocate_failure [OF inv' c env al, of k] rest show ?thesis by (auto simp: counters_inv)
  qed
qed

theorem failed_request_leaves_nothing_witness:
  "\<exists>px'. handleDNSRequest sampleEnv (\<lambda>_ _. Some (sampleMsg [sampleA\<lparr>rr_data := AAAA (replicate 16 2)\<rparr>, sampleA\<lparr>rr_data := AAAA (replicate 16 1)\<rparr>]))
       (\<lambda>_ _. None) (sampleMsg []) (sampleProxy\<lparr>dp_pool := tinyPool\<lparr>ctr := zeroMetrics\<lparr>MetricsDNSQueries := - 1\<rparr>\<rparr>\<rparr>) = ((Failure, None), px') \<and>
     (\<forall>k. fakeOf (dp_pool px') k = None)"
proof -
  let ?a = "replicate 16 (1 :: byte)" and ?b = "replicate 16 (2 :: byte)"
  let ?resp = "sampleMsg [sampleA\<lparr>rr_data := AAAA ?b\<rparr>, sampleA\<lparr>rr_data := AAAA ?a\<rparr>]"
  let ?p = "tinyPool\<lparr>ctr := zeroMetrics\<lparr>MetricsDNSQueries := - 1\<rparr>\<rparr>"
  let ?px = "sampleProxy\<lparr>dp_pool := ?p\<rparr>"
  have p: "incDNSQueries ?p = tinyPool"
    by (simp add: incDNSQueries_def tinyPool_def NewIPPoolWithConfig_def zeroMetrics_def Let_def)
  have inv: "pool_inv ?p" using pool_inv_New [of "[]" "[]"] by (rule pool_inv_frame) (simp_all add: tinyPool_def)
  have emp: "fakeOf ?p k = None" for k by (simp add: fakeOf_def tinyPool_def NewIPPoolWithConfig_def emptyShard_def Let_def)
  have up: "resolveUpstream (\<lambda>_ _. Some ?resp) (\<lambda>_ _. None) (dp_upstreams ?px) False = (Some ?resp, False)"
    by (simp add: sampleProxy_def NewDNSProxy_def exchange_def sampleMsg_def)
  have col: "collectAll True ?resp = ([], [?b, ?a])"
    by (simp add: collectAll_def sampleMsg_def sampleA_def addV6_def To4_def IP_Equal_def IPv6zero_def v4InV6Prefix_def numeral_eq_Suc)
  obtain q where "GetFakeIPsForReals id 0 (\<lambda>_. 7) [?b, ?a] True tinyPool = (None, q)" using tinyPool_exhausted by blast
  then have "allocateAddresses sampleEnv [] [?b, ?a] tinyPool = (None, rollback [] q)"
    by (simp add: allocateAddresses_def allocateFamily_def sampleEnv_def)
  then have req: "handleDNSRequest sampleEnv (\<lambda>_ _. Some ?resp) (\<lambda>_ _. None) (sampleMsg []) ?px =
      ((Failure, None), ?px\<lparr>dp_pool := rollback [] q\<rparr>)"
    using up col p by (simp add: handleDNSRequest_def isHealthcheck_def Let_def) (simp add: sampleProxy_def NewDNSProxy_def sampleMsg_def)
  have env: "fair_env sampleEnv" by (simp add: fair_env_def sampleEnv_def)
  have w: "\<forall>resp err. resolveUpstream (\<lambda>_ _. Some ?resp) (\<lambda>_ _. None) (dp_upstreams ?px) False = (Some resp, err) \<longrightarrow> wire_ok resp"
    unfolding up by (simp add: wire_ok_def records_def sampleMsg_def)
  have "pool_inv (dp_pool ?px)" using inv by simp
  from failed_request_leaves_nothing [OF this env w req] emp req show ?thesis by auto
qed

text \<open>C25: the resolver asks the upstreams in order, each at most twice, and returns the first answer it gets; an answer
  that was truncated is replaced by the answer over TCP when that exchange succeeds. It reports an error exactly when
  all attempts failed.\<close>

theorem resolveUpstream_first:
  "resolveUpstream udp tcp us False =
     (case List.find (\<lambda>(u, k). udp u k \<noteq> None) (List.product us [0, 1]) of
        None \<Rightarrow> (None, us \<noteq> [])
      | Some (u, k) \<Rightarrow> (Some (if Truncated (the (udp u k)) \<and> tcp u k \<noteq> None then the (tcp u k) else the (udp u k)), False))"
proof -
  have "resolveUpstream udp tcp us e =
     (case List.find (\<lambda>(u, k). udp u k \<noteq> None) (List.product us [0, 1]) of
        None \<Rightarrow> (None, us \<noteq> [] \<or> e)
      | Some (u, k) \<Rightarrow> (Some (if Truncated (the (udp u k)) \<and> tcp u k \<noteq> None then the (tcp u k) else the (udp u k)), False))" for e
    by (induction us arbitrary: e) (auto simp: exchange_def split: option.splits)
  from this [of False] show ?thesis unfolding simp_thms .
qed

subsection \<open>Publication\<close>

lemma allocate_distinct:
  assumes "allocateAddresses env v4s v6s p = (Some pb, q)"
  shows "distinct (map fst (pb_mapV4 pb))" "distinct (map fst (pb_mapV6 pb))"
proof -
  have "distinct (map fst m)" if "allocateFamily perm now clk reals v6flag p = (Some (m, new), q)" for perm now clk reals v6flag p m new q
    using that by (auto simp: allocateFamily_def split: if_splits dest: batch_distinct)
  then show "distinct (map fst (pb_mapV4 pb))" "distinct (map fst (pb_mapV6 pb))"
    using assms by (auto simp: allocateAddresses_def split: prod.splits option.splits)
qed

lemma nftEntries_iff:
  "(f, r, t) \<in> set (nftEntries conv es) \<longleftrightarrow>
     (\<exists>s ip. (s, f) \<in> set es \<and> ParseIP s = Some ip \<and> r = slice (conv ip) \<and> t = MappingTTL)"
  by (induction conv es rule: nftEntries.induct) (auto split: option.splits)

text \<open>The calls for one family, where \<open>conv\<close> turns the parsed text back into the address.\<close>

lemma nftEntries_served:
  assumes srv: "served now reals q0 m" "distinct (map fst m)" and val: "\<forall>d\<in>set reals. valid_IP d"
    and q: "pool_inv q" "\<forall>k\<in>ToIPKey ` set reals. fakeOf q k = fakeOf q0 k"
    and conv: "\<forall>d\<in>set reals. conv (the (To16 d)) = Some d"
  shows "(f, r, t) \<in> set (nftEntries conv m) \<Longrightarrow> r \<in> set reals \<and> stands_for q r f \<and> t = MappingTTL"
    "d \<in> set reals \<Longrightarrow> \<exists>f. (f, d, MappingTTL) \<in> set (nftEntries conv m)"
proof -
  have parse: "ParseIP (IP_String d) = Some (the (To16 d))" if "d \<in> set reals" for d
    using ParseIP_String [of d] val that To16_valid [of d] by auto
  have one: "stands_for q d f" if "d \<in> set reals" "(IP_String d, f) \<in> set m" for d f
  proof -
    have "map_of m (IP_String d) = Some f" using that(2) srv(2) by simp
    then show ?thesis using srv(1) q that(1) by (auto simp: served_def stands_for_def pool_inv_bij [OF q(1), symmetric])
  qed
  show "r \<in> set reals \<and> stands_for q r f \<and> t = MappingTTL" if mem: "(f, r, t) \<in> set (nftEntries conv m)"
  proof -
    obtain s ip where s: "(s, f) \<in> set m" "ParseIP s = Some ip" "r = slice (conv ip)" "t = MappingTTL"
      using mem by (auto simp: nftEntries_iff)
    have "s \<in> IP_String ` set reals" using srv(1) s(1) by (force simp: served_def)
    then obtain d where d: "d \<in> set reals" "s = IP_String d" by auto
    then have "r = d" using s parse conv by (auto simp: slice_def)
    with one [OF d(1)] s d show ?thesis by simp
  qed
  show "\<exists>f. (f, d, MappingTTL) \<in> set (nftEntries conv m)" if d: "d \<in> set reals"
  proof -
    obtain f where "map_of m (IP_String d) = Some f" using srv(1) d by (auto simp: served_def)
    then have "(IP_String d, f) \<in> set m" by (rule map_of_SomeD)
    then show ?thesis using parse [OF d] conv d unfolding nftEntries_iff
      by (intro exI [of _ f] exI [of _ "IP_String d"] exI [of _ "the (To16 d)"]) (simp add: slice_def)
  qed
qed

text \<open>C26: every fake address a client can see is routed. After the publication of an answered request the packet filter
  client has received, for every real address of the response, a rule that sends a fake address to it, and every rule
  it has received for the request sends a fake address to the real address the pool holds for it, whatever the order in which the maps
  are visited.\<close>

theorem published_rules_route:
  assumes inv: "pool_inv (dp_pool px)" and env: "fair_env env"
    and up: "resolveUpstream udp tcp (dp_upstreams px) False = (Some resp, err)" and wire: "wire_ok resp"
    and req: "handleDNSRequest env udp tcp r px = ((Response msg, Some pb), px')"
    and nft: "dp_nftClient px = Some old" and order: "mset m4 = mset (pb_mapV4 pb)" "mset m6 = mset (pb_mapV6 pb)"
  shows "\<exists>calls. dp_nftClient (publishMappings visit (pb\<lparr>pb_mapV4 := m4, pb_mapV6 := m6\<rparr>) px') = Some (old @ calls) \<and>
    (\<forall>(f, real, ttl)\<in>set calls. stands_for (dp_pool px') real f \<and> ttl = MappingTTL) \<and>
    (\<forall>rr\<in>set (records resp). \<forall>x\<in>set (addrs4 (rr_data rr)). real4 x \<longrightarrow> (\<exists>f. (f, the (To4 x), MappingTTL) \<in> set calls)) \<and>
    (\<forall>rr\<in>set (records resp). \<forall>x\<in>set (addrs6 (rr_data rr)). dp_enableIPv6 px \<and> real6 x \<longrightarrow> (\<exists>f. (f, x, MappingTTL) \<in> set calls))"
proof -
  from handle_Response [OF req up] obtain v4s v6s where h: "collectAll (dp_enableIPv6 px) resp = (v4s, v6s)"
    "allocateAddresses env v4s v6s (incDNSQueries (dp_pool px)) = (Some pb, dp_pool px')" "dp_nftClient px' = dp_nftClient px"
    by (metis option.inject)
  let ?xs = "\<Union>rr\<in>set (records resp). set (addrs4 (rr_data rr))" and ?ys = "\<Union>rr\<in>set (records resp). set (addrs6 (rr_data rr))"
  have col: "collected (dp_enableIPv6 px) ?xs ?ys (v4s, v6s)" using collected_all [OF wire] h(1) by metis
  have val: "\<forall>x\<in>?xs. valid_IP x" "\<forall>y\<in>?ys. length y = 16" using wire by (auto simp: wire_ok_def)
  have inv': "pool_inv (incDNSQueries (dp_pool px))" using inv by (simp add: counters_inv)
  note al = allocate_success [OF inv' col env val h(2)] and di = allocate_distinct [OF h(2)] and l = collected_lists [OF col]
  have len: "\<forall>x\<in>set v4s. length x = 4" "\<forall>x\<in>set v6s. length x = 16" using col by (auto simp: collected_def)
  have c4: "\<forall>d\<in>set v4s. To4 (the (To16 d)) = Some d" using len(1) by (simp add: To16_def)
  have c6: "\<forall>d\<in>set v6s. To16 (the (To16 d)) = Some d" using len(2) by (simp add: To16_def)
  obtain p1 where p1: "served (env_now4 env) v4s p1 (pb_mapV4 pb)" "\<forall>k\<in>ToIPKey ` set v4s. fakeOf (dp_pool px') k = fakeOf p1 k"
    using al(5) by blast
  note n4 = nftEntries_served [OF p1(1) di(1) l(1) al(1) p1(2) c4] and n6 = nftEntries_served [OF al(4) di(2) l(2) al(1) _ c6]
  have sets: "set (nftEntries To4 m4) = set (nftEntries To4 (pb_mapV4 pb))" "set (nftEntries To16 m6) = set (nftEntries To16 (pb_mapV6 pb))"
    using mset_eq_setD [OF order(1)] mset_eq_setD [OF order(2)] by (auto simp: nftEntries_iff)
  let ?calls = "nftEntries To4 m4 @ nftEntries To16 m6"
  have "\<exists>f. (f, the (To4 x), MappingTTL) \<in> set ?calls" if "x \<in> ?xs" "real4 x" for x
  proof -
    have "the (To4 x) \<in> set v4s" using col that by (auto simp: collected_def)
    from n4(2) [OF this] show ?thesis by (auto simp: sets)
  qed
  moreover have "\<exists>f. (f, y, MappingTTL) \<in> set ?calls" if "y \<in> ?ys" "dp_enableIPv6 px" "real6 y" for y
  proof -
    have "y \<in> set v6s" using col that by (auto simp: collected_def)
    from n6(2) [OF _ this] show ?thesis by (auto simp: sets)
  qed
  moreover have "stands_for (dp_pool px') real f \<and> ttl = MappingTTL" if "(f, real, ttl) \<in> set ?calls" for f real ttl
    using that n4(1) [of f real ttl] n6(1) [of f real ttl] by (auto simp: sets)
  moreover have "dp_nftClient (publishMappings visit (pb\<lparr>pb_mapV4 := m4, pb_mapV6 := m6\<rparr>) px') = Some (old @ ?calls)"
    using nft h(3) by (simp add: publishMappings_def Let_def)
  ultimately show ?thesis by (intro exI [of _ ?calls] conjI) blast+
qed

theorem published_rules_route_witness:
  "\<exists>msg pb px' f. handleDNSRequest sampleEnv (\<lambda>_ _. Some (sampleMsg [sampleA])) (\<lambda>_ _. None) (sampleMsg []) sampleProxy =
      ((Response msg, Some pb), px') \<and> (f, [1, 1, 1, 1], MappingTTL) \<in> set (the (dp_nftClient (publishMappings [] pb px')))"
proof -
  obtain msg pb px' where h: "handleDNSRequest sampleEnv (\<lambda>_ _. Some (sampleMsg [sampleA])) (\<lambda>_ _. None) (sampleMsg []) sampleProxy =
      ((Response msg, Some pb), px')"
    "resolveUpstream (\<lambda>_ _. Some (sampleMsg [sampleA])) (\<lambda>_ _. None) (dp_upstreams sampleProxy) False = (Some (sampleMsg [sampleA]), False)"
    "pool_inv (dp_pool sampleProxy)" "fair_env sampleEnv" "wire_ok (sampleMsg [sampleA])"
    by (rule sample_request)
  have nft: "dp_nftClient sampleProxy = Some []" by (simp add: sampleProxy_def NewDNSProxy_def)
  have "real4 [1, 1, 1, 1]" "To4 [1, 1, 1, 1] = Some [1, 1, 1, 1]" by (simp_all add: real4_def To4_def)
  note real = this
  from published_rules_route [OF h(3,4,2,5,1) nft refl refl, of "[]"] obtain calls where
    "dp_nftClient (publishMappings [] (pb\<lparr>pb_mapV4 := pb_mapV4 pb, pb_mapV6 := pb_mapV6 pb\<rparr>) px') = Some ([] @ calls)"
    and all: "\<forall>rr\<in>set (records (sampleMsg [sampleA])). \<forall>x\<in>set (addrs4 (rr_data rr)). real4 x \<longrightarrow> (\<exists>f. (f, the (To4 x), MappingTTL) \<in> set calls)"
    by blast
  then have "dp_nftClient (publishMappings [] pb px') = Some calls" by simp
  moreover have "\<exists>f. (f, [1, 1, 1, 1], MappingTTL) \<in> set calls"
    using all real by (simp add: records_def sampleMsg_def sampleA_def)
  ultimately show ?thesis using h(1) by auto
qed

end
