(* ===== verification/Domains.thy ===== *)
theory Domains
  imports GoText "HOL-Library.List_Lexorder"
begin

text \<open>
  Domain names in the list compiler (\<^verbatim>\<open>internal/parser/compiler.go\<close>) and the casino filter
  (\<^verbatim>\<open>internal/parser/filter.go\<close>): normalising a name, stripping host prefixes, reading an ad-block line,
  sorting and collapsing a list of names, and building the two lists of a response policy zone. The
  conversion of international names (\<^verbatim>\<open>idna.ToASCII\<close>) is the parameter \<open>idna\<close>, the Unicode case
  tables are the parameter \<open>uni\<close>, and the order in which Go ranges over a map is the parameter \<open>ko\<close>.
\<close>

subsection \<open>More of Go's strings package\<close>

text \<open>\<^verbatim>\<open>strings.Trim\<close> with a cutset of ASCII characters.\<close>

definition TrimSet :: "string \<Rightarrow> string \<Rightarrow> string" where
  "TrimSet s cutset =
     rev (dropWhile (\<lambda>c. c \<in> set cutset) (rev (dropWhile (\<lambda>c. c \<in> set cutset) s)))"

text \<open>\<^verbatim>\<open>strings.ContainsAny\<close> and \<^verbatim>\<open>strings.IndexAny\<close> with ASCII characters.\<close>

definition ContainsAny :: "string \<Rightarrow> string \<Rightarrow> bool" where
  "ContainsAny s chars \<longleftrightarrow> (\<exists>c\<in>set s. c \<in> set chars)"

definition IndexAny :: "string \<Rightarrow> string \<Rightarrow> nat option" where
  "IndexAny s chars = (if ContainsAny s chars then Some (length (takeWhile (\<lambda>c. c \<notin> set chars) s)) else None)"

text \<open>\<^verbatim>\<open>strings.Count\<close> of a one-character string.\<close>

definition CountByte :: "string \<Rightarrow> char \<Rightarrow> nat" where
  "CountByte s c = length (filter (\<lambda>x. x = c) s)"

text \<open>\<^verbatim>\<open>strings.Fields\<close>: the words between runs of white space; the second argument holds the word that is
  being read, backwards.\<close>

function fields_loop :: "string \<Rightarrow> string \<Rightarrow> string list" where
  "fields_loop s w =
     (case leading_space s of
        Some n \<Rightarrow> (if w = [] then [] else [rev w]) @ fields_loop (drop n s) []
      | None \<Rightarrow> (case s of [] \<Rightarrow> if w = [] then [] else [rev w] | c # s' \<Rightarrow> fields_loop s' (c # w)))"
  by pat_completeness auto

text \<open>Sorting with a strict order: what \<^verbatim>\<open>sort.Sort\<close> leaves when the order is total.\<close>

fun sort_insert :: "('a \<Rightarrow> 'a \<Rightarrow> bool) \<Rightarrow> 'a \<Rightarrow> 'a list \<Rightarrow> 'a list" where
  "sort_insert lt x [] = [x]"
| "sort_insert lt x (y # ys) = (if lt y x then y # sort_insert lt x ys else x # y # ys)"

definition sort_by :: "('a \<Rightarrow> 'a \<Rightarrow> bool) \<Rightarrow> 'a list \<Rightarrow> 'a list" where
  "sort_by lt xs = foldr (sort_insert lt) xs []"

termination fields_loop
  by (relation "measure (\<lambda>(s, w). length s)") (auto dest!: leading_space_pos)

declare fields_loop.simps [simp del]

definition Fields :: "string \<Rightarrow> string list" where
  "Fields s = fields_loop s []"

subsection \<open>Labels and names\<close>

definition byte_range :: "char \<Rightarrow> char \<Rightarrow> char \<Rightarrow> bool" where
  "byte_range lo hi c \<longleftrightarrow> lo \<le> c \<and> c \<le> hi"

definition isAlnumOrU :: "char \<Rightarrow> bool" where
  "isAlnumOrU c \<longleftrightarrow>
     byte_range (CHR ''a'') (CHR ''z'') c \<or> byte_range (CHR ''A'') (CHR ''Z'') c
     \<or> byte_range (CHR ''0'') (CHR ''9'') c \<or> c = CHR ''_''"

definition isValidLabel :: "string \<Rightarrow> bool" where
  "isValidLabel label =
     (let l = length label
      in if l = 0 \<or> 63 < l then False
         else if \<not> isAlnumOrU (label ! 0) \<or> \<not> isAlnumOrU (label ! (l - 1)) then False
         else list_all (\<lambda>i. isAlnumOrU (label ! i) \<or> label ! i = CHR ''-'') [1..<l - 1])"

definition forbidden_chars :: string where
  "forbidden_chars = ''[]~:/?#'' @ [CHR 0x5C] @ ''@!$&'' @ [CHR 0x27] @ ''()*+,;=''"

definition normalizeDomain :: "(string \<Rightarrow> string) \<Rightarrow> (string \<Rightarrow> string option) \<Rightarrow> string \<Rightarrow> string" where
  "normalizeDomain uni idna d0 =
     (let d1 = TrimPrefix (ToLower uni (TrimSpace d0)) ''*.''
      in if ContainsAny d1 forbidden_chars then []
         else let d2 = TrimSet d1 ''.''
           in if \<not> Contains d2 ''.'' \<or> 253 < length d2 then []
              else case idna d2 of
                  None \<Rightarrow> []
                | Some d \<Rightarrow> if list_all isValidLabel (Split d (CHR ''.'')) then d else [])"

definition isNumberedPrefix :: "string \<Rightarrow> string \<Rightarrow> bool" where
  "isNumberedPrefix s base \<longleftrightarrow> HasPrefix s base \<and> list_all is_digit (drop (length base) s)"

definition isPureDigits :: "string \<Rightarrow> bool" where
  "isPureDigits s \<longleftrightarrow> s \<noteq> [] \<and> list_all is_digit s"

text \<open>\<^verbatim>\<open>stripPrefix\<close>. The position of the first dot is that in the lower-case copy; \<^const>\<open>None\<close> is the panic of
  a slice beyond the end of the name.\<close>

definition stripPrefix :: "(string \<Rightarrow> string) \<Rightarrow> string \<Rightarrow> string option" where
  "stripPrefix uni d =
     (if CountByte d (CHR ''.'') < 2 then Some d
      else let dLower = ToLower uni d
        in case IndexByte dLower (CHR ''.'') of
             None \<Rightarrow> Some d
           | Some firstDot \<Rightarrow>
               if firstDot = 0 then Some d
               else let prfx = take firstDot dLower
                 in if isNumberedPrefix prfx ''www'' \<or> isNumberedPrefix prfx ''m''
                       \<or> isNumberedPrefix prfx ''hd'' \<or> isNumberedPrefix prfx ''cdn'' \<or> isPureDigits prfx
                    then (if firstDot + 1 \<le> length d then Some (drop (firstDot + 1) d) else None)
                    else Some d)"

definition stripPrefixesMap :: "(string \<Rightarrow> string) \<Rightarrow> string set \<Rightarrow> string set option" where
  "stripPrefixesMap uni src =
     (if \<exists>d\<in>src. stripPrefix uni d = None then None else Some ((\<lambda>d. the (stripPrefix uni d)) ` src))"

subsection \<open>Ad-block lines\<close>

record DomainRule =
  Domain :: string
  IsEx :: bool

definition parseAdblockLine ::
  "(string \<Rightarrow> string) \<Rightarrow> (string \<Rightarrow> string option) \<Rightarrow> string \<Rightarrow> bool \<Rightarrow> DomainRule option" where
  "parseAdblockLine uni idna line0 forceException =
     (let line = TrimSpace line0
      in if line = [] \<or> Contains line ''##'' \<or> Contains line ''#@#'' then None
         else let (isEx, domain) =
                (if HasPrefix line ''@@||'' then (True, drop 4 line)
                 else if HasPrefix line ''||'' then (False, drop 2 line)
                 else if HasPrefix line ''@@'' then (True, drop 2 line)
                 else (forceException, line));
                hasWildcard = HasPrefix domain ''*.'';
                checkDomain = (if hasWildcard then drop 2 domain else domain)
           in if Contains domain ''/'' then None
              else let checkDomain' = (case IndexAny checkDomain ''^$*'' of
                         None \<Rightarrow> checkDomain | Some i \<Rightarrow> take i checkDomain);
                       domain' = TrimSpace (if hasWildcard then ''*.'' @ checkDomain' else checkDomain')
                in if domain' = [] \<or> Contains domain' ''*'' \<and> \<not> HasPrefix domain' ''*.'' then None
                   else let v = normalizeDomain uni idna domain'
                     in if v = [] then None else Some \<lparr>Domain = v, IsEx = isEx\<rparr>)"

subsection \<open>Sorting and collapsing\<close>

text \<open>\<^verbatim>\<open>domainSorter.Less\<close>: names are compared from their last byte.\<close>

function Less_loop :: "string \<Rightarrow> string \<Rightarrow> nat \<Rightarrow> bool" where
  "Less_loop a b k =
     (if k \<le> length a \<and> k \<le> length b
      then let ca = a ! (length a - k); cb = b ! (length b - k)
        in if ca \<noteq> cb then ca < cb else Less_loop a b (k + 1)
      else length a < length b)"
  by pat_completeness auto
termination by (relation "measure (\<lambda>(a, b, k). Suc (length a) - k)") auto

declare Less_loop.simps [simp del]

definition Less :: "string \<Rightarrow> string \<Rightarrow> bool" where
  "Less a b = Less_loop a b 1"

text \<open>The loop of \<^verbatim>\<open>CollapseDomains\<close>; the first argument is the current suffix, \<^const>\<open>None\<close> before the first
  name.\<close>

fun collapse_loop :: "string option \<Rightarrow> string list \<Rightarrow> string list" where
  "collapse_loop cur [] = []"
| "collapse_loop cur (d # ds) =
     (if cur = None \<or> \<not> HasSuffix d (the cur) then d # collapse_loop (Some (''.'' @ d)) ds
      else collapse_loop cur ds)"

definition CollapseDomains :: "string list \<Rightarrow> string list" where
  "CollapseDomains domains = collapse_loop None (sort_by Less domains)"

definition buildSimpleRPZ ::
  "(string set \<Rightarrow> string list) \<Rightarrow> DomainRule list \<Rightarrow> string list \<times> string list" where
  "buildSimpleRPZ ko rules =
     (let inc = Domain ` {r \<in> set rules. \<not> IsEx r};
          excMap = Domain ` {r \<in> set rules. IsEx r};
          unionOpt = CollapseDomains (ko inc @ ko excMap);
          final = filter (\<lambda>d. d \<notin> excMap) unionOpt;
          exc = CollapseDomains (ko excMap)
      in (final, exc))"

definition uniqueSliceFromMap :: "(string set \<Rightarrow> string list) \<Rightarrow> string set \<Rightarrow> string list" where
  "uniqueSliceFromMap ko src = sort_by (<) (ko src)"

subsection \<open>The casino filter\<close>

text \<open>Regular expressions of the kind the filter uses, over bytes.\<close>

datatype rx = Zero | Eps | Set "char list" | Seq rx rx | Alt rx rx | Star rx

fun nullable :: "rx \<Rightarrow> bool" where
  "nullable Zero = False"
| "nullable Eps = True"
| "nullable (Set cs) = False"
| "nullable (Seq a b) = (nullable a \<and> nullable b)"
| "nullable (Alt a b) = (nullable a \<or> nullable b)"
| "nullable (Star a) = True"

fun deriv :: "char \<Rightarrow> rx \<Rightarrow> rx" where
  "deriv c Zero = Zero"
| "deriv c Eps = Zero"
| "deriv c (Set cs) = (if c \<in> set cs then Eps else Zero)"
| "deriv c (Seq a b) =
     (if nullable a then Alt (Seq (deriv c a) b) (deriv c b) else Seq (deriv c a) b)"
| "deriv c (Alt a b) = Alt (deriv c a) (deriv c b)"
| "deriv c (Star a) = Seq (deriv c a) (Star a)"

text \<open>\<^verbatim>\<open>regexp.MatchString\<close> without anchors: some prefix of some suffix of the string is in the language.\<close>

fun match_prefix :: "rx \<Rightarrow> string \<Rightarrow> bool" where
  "match_prefix r s = (nullable r \<or> (case s of [] \<Rightarrow> False | c # s' \<Rightarrow> match_prefix (deriv c r) s'))"

declare match_prefix.simps [simp del]

fun MatchString :: "rx \<Rightarrow> string \<Rightarrow> bool" where
  "MatchString r [] = match_prefix r []"
| "MatchString r (c # s) = (match_prefix r (c # s) \<or> MatchString r s)"

text \<open>A character class under the flag \<^verbatim>\<open>(?i)\<close>: both cases of its letters, and the two non-ASCII runes that
  fold to ASCII letters, the Kelvin sign (for \<^verbatim>\<open>k\<close>) and the long s.\<close>

definition upper_ascii :: "char \<Rightarrow> char" where
  "upper_ascii c = (if 97 \<le> ord c \<and> ord c \<le> 122 then char_of (ord c - 32) else c)"

definition bytes_rx :: "nat list \<Rightarrow> rx" where
  "bytes_rx ns = foldr (\<lambda>n r. Seq (Set [char_of n]) r) ns Eps"

definition cls :: "string \<Rightarrow> rx" where
  "cls cs =
     (let ascii = Set (cs @ map upper_ascii cs);
          withK = (if CHR ''k'' \<in> set cs then Alt ascii (bytes_rx [0xE2, 0x84, 0xAA]) else ascii)
      in if CHR ''s'' \<in> set cs then Alt withK (bytes_rx [0xC5, 0xBF]) else withK)"

definition Plus :: "rx \<Rightarrow> rx" where
  "Plus r = Seq r (Star r)"

definition seqs :: "rx list \<Rightarrow> rx" where
  "seqs rs = foldr Seq rs Eps"

definition alts :: "rx list \<Rightarrow> rx" where
  "alts rs = foldr Alt rs Zero"

definition lit :: "string \<Rightarrow> rx" where
  "lit s = seqs (map (\<lambda>c. cls [c]) s)"

text \<open>Two words joined by \<^verbatim>\<open>-*\<close>, and by \<^verbatim>\<open>.*\<close> (any byte but the newline).\<close>

definition dashed :: "string \<Rightarrow> string \<Rightarrow> rx" where
  "dashed a b = seqs [lit a, Star (Set ''-''), lit b]"

definition gapped :: "string \<Rightarrow> string \<Rightarrow> rx" where
  "gapped a b = seqs [lit a, Star (Set (map char_of (filter (\<lambda>n. n \<noteq> 10) [0..<256]))), lit b]"

definition CasinoRegex :: rx where
  "CasinoRegex = alts
     ([seqs [cls ''ck'', Plus (cls ''a''), Plus (cls ''szc3''), Plus (cls ''iley1''), Plus (cls ''n''), cls ''0123456789o''],
       seqs [cls ''vw'', Plus (cls ''uy''), Plus (cls ''l1''), cls ''kc'', Plus (cls ''a''), cls ''n''],
       seqs [cls ''vw'', Plus (cls ''a''), Plus (cls ''vw''), Plus (cls ''a''), Plus (cls ''d''), cls ''a''],
       Seq (Alt (lit ''1'') Eps) (dashed ''x'' ''bet'')]
      @ map (\<lambda>(a, b). dashed a b)
         [(''most'', ''bet''), (''leon'', ''bet''), (''rio'', ''bet''), (''mel'', ''bet''), (''ramen'', ''bet''),
          (''marathon'', ''bet''), (''max'', ''bet''), (''bet'', ''win''), (''gg'', ''bet''), (''spin'', ''bet''),
          (''banzai'', ''bet''), (''1iks'', ''bet''), (''x'', ''slot'')]
      @ [gapped ''sloto'' ''zal'', dashed ''max'' ''slot'', dashed ''bk'' ''leon'', dashed ''gold'' ''fishka'',
         dashed ''play'' ''fortuna'', gapped ''dragon'' ''money'', gapped ''poker'' ''dom'']
      @ map (\<lambda>(a, b). dashed a b)
         [(''1'', ''win''), (''crypto'', ''bos''), (''free'', ''spin''), (''fair'', ''spin''), (''no'', ''deposit'')]
      @ map lit [''igrovye'', ''avtomaty'', ''bookmaker'', ''zerkalo'', ''slottica'', ''sykaaa'']
      @ map (\<lambda>(a, b). dashed a b)
         [(''admiral'', ''x''), (''x'', ''admiral''), (''pinup'', ''bet''), (''pari'', ''match'')]
      @ map lit [''betting'', ''partypoker'', ''jackpot'', ''bonus'']
      @ [seqs [lit ''azino'', cls ''0123456789-''], dashed ''888'' ''starz'',
         seqs [lit ''zooma'', cls ''0123456789-''], dashed ''zenit'' ''bet'']
      @ map lit [''eldorado'', ''slots'', ''vodka'', ''newretro'', ''platinum'', ''igrat'', ''flagman'', ''arkada''])"

definition IsCasino :: "string \<Rightarrow> bool" where
  "IsCasino domain = MatchString CasinoRegex domain"

end
