(* ===== verification/DomainProps.thy ===== *)
theory DomainProps
  imports Domains "HOL-Library.Multiset"
begin

text \<open>
  What the domain part of the compiler guarantees: the comparison is the lexicographic order of the
  reversed names, collapsing keeps a set of names that covers every input, normalised names consist
  of valid labels, and the lists built for a policy zone respect the exclusions. The collapsed list is
  minimal as long as no character below the dot occurs; the hyphen is such a character, and a name
  with a hyphen can separate a domain from its subdomain, which is shown on an example.
\<close>

subsection \<open>The order on names\<close>

lemma Nil_less_iff: "[] < xs \<longleftrightarrow> xs \<noteq> []" for xs :: "'a::linorder list"
  by (cases xs) auto

lemma Less_loop_iff:
  assumes "1 \<le> k" "k \<le> Suc (length a)" "k \<le> Suc (length b)"
  shows "Less_loop a b k \<longleftrightarrow> drop (k - 1) (rev a) < drop (k - 1) (rev b)"
  using assms
proof (induction a b k rule: Less_loop.induct)
  case (1 a b k)
  show ?case
  proof (cases "k \<le> length a \<and> k \<le> length b")
    case True
    then have heads: "drop (k - 1) (rev a) = a ! (length a - k) # drop k (rev a)"
      "drop (k - 1) (rev b) = b ! (length b - k) # drop k (rev b)"
      using 1(2) Cons_nth_drop_Suc [of "k - 1" "rev a"] Cons_nth_drop_Suc [of "k - 1" "rev b"]
      by (auto simp: rev_nth)
    show ?thesis
      unfolding Less_loop.simps [of a b k] heads using True 1 by (auto simp: Let_def)
  next
    case False
    then show ?thesis
      unfolding Less_loop.simps [of a b k] using 1(2-4)
      by (cases "length a < length b") (auto simp: Nil_less_iff)
  qed
qed

lemma Less_iff: "Less a b \<longleftrightarrow> rev a < rev b"
  by (simp add: Less_def Less_loop_iff)

lemma sort_insert_key:
  "(\<And>a b. lt a b \<longleftrightarrow> f a < f b) \<Longrightarrow> sort_insert lt x xs = insort_key f x xs"
  for f :: "'a \<Rightarrow> 'b::linorder"
  by (induction xs) (auto simp: not_less)

lemma sort_by_key:
  "(\<And>a b. lt a b \<longleftrightarrow> f a < f b) \<Longrightarrow> sort_by lt xs = sort_key f xs"
  for f :: "'a \<Rightarrow> 'b::linorder"
  by (simp add: sort_by_def sort_key_def sort_insert_key cong: foldr_cong)

lemma sort_by_Less: "sort_by Less xs = sort_key rev xs"
  by (rule sort_by_key) (rule Less_iff)

lemma sort_by_less: "sort_by (<) xs = sort xs"
  by (rule sort_by_key) simp

text \<open>Any arrangement that is sorted for \<^const>\<open>Less\<close> is the one of the model, so the choice of the sorting
  algorithm does not matter.\<close>

lemma sorted_rev_unique:
  assumes "mset ys = mset xs" "sorted (map rev ys)"
  shows "sort_key rev xs = ys"
proof -
  have "sort (map rev xs) = map rev ys"
    by (rule properties_for_sort) (simp_all add: assms)
  moreover have "sort (map rev xs) = map rev (sort_key rev xs)"
    by (rule properties_for_sort) simp_all
  ultimately have "map rev ys = map rev (sort_key rev xs)" by simp
  then show ?thesis by (simp add: inj_map_eq_map)
qed

lemma sorted_Less_unique:
  assumes "mset ys = mset xs" "sorted_wrt (\<lambda>a b. \<not> Less b a) ys"
  shows "ys = sort_by Less xs"
  using assms by (simp add: sort_by_Less sorted_rev_unique Less_iff not_less sorted_map)

subsection \<open>Collapsing\<close>

text \<open>A name covers itself and every name below it.\<close>

definition covers :: "string \<Rightarrow> string \<Rightarrow> bool" where
  "covers d x \<longleftrightarrow> x = d \<or> HasSuffix x (''.'' @ d)"

definition covered :: "string set \<Rightarrow> string \<Rightarrow> bool" where
  "covered D x \<longleftrightarrow> (\<exists>d\<in>D. covers d x)"

lemma covers_refl [simp]: "covers d d"
  by (simp add: covers_def)

lemma covers_rev: "covers d x \<longleftrightarrow> rev x = rev d \<or> (\<exists>t. rev x = rev d @ CHR ''.'' # t)"
proof -
  have "HasSuffix x (''.'' @ d) \<longleftrightarrow> (\<exists>t. rev x = rev d @ CHR ''.'' # t)"
    unfolding HasSuffix_iff
    by (metis append.assoc append_Cons append_Nil rev.simps(2) rev_append rev_rev_ident)
  then show ?thesis by (simp add: covers_def)
qed

lemma covers_trans: "covers a b \<Longrightarrow> covers b c \<Longrightarrow> covers a c"
  by (auto simp: covers_rev)

lemma le_append: "q \<le> q @ (t :: 'a::linorder list)"
  by (induction q) auto

lemma covers_order: "covers a b \<Longrightarrow> rev a \<le> rev b"
  by (auto simp: covers_rev le_append)

lemma set_collapse_loop: "set (collapse_loop cur ds) \<subseteq> set ds"
  by (induction ds arbitrary: cur) auto

lemma collapse_loop_covers:
  "x \<in> set ds \<Longrightarrow> (\<exists>c. cur = Some c \<and> HasSuffix x c) \<or> covered (set (collapse_loop cur ds)) x"
proof (induction ds arbitrary: cur)
  case (Cons d ds)
  show ?case
  proof (cases "cur = None \<or> \<not> HasSuffix d (the cur)")
    case True
    then show ?thesis
      using Cons.IH [of "Some (''.'' @ d)"] Cons.prems
      by (cases "x = d") (auto simp: covered_def covers_def)
  next
    case False
    then show ?thesis using Cons.IH [of cur] Cons.prems by auto
  qed
qed simp

lemma set_CollapseDomains: "set (CollapseDomains ds) \<subseteq> set ds"
  using set_collapse_loop [of None "sort_by Less ds"] by (simp add: CollapseDomains_def sort_by_Less)

lemma CollapseDomains_covered: "x \<in> set ds \<Longrightarrow> covered (set (CollapseDomains ds)) x"
  using collapse_loop_covers [of x "sort_by Less ds" None] by (simp add: CollapseDomains_def sort_by_Less)

lemma CollapseDomains_perm:
  assumes "mset xs = mset ys"
  shows "CollapseDomains xs = CollapseDomains ys"
proof -
  have "sort_key rev xs = sort_key rev ys"
    using assms by (intro sorted_rev_unique) auto
  then show ?thesis by (simp add: CollapseDomains_def sort_by_Less)
qed

text \<open>Between a name and a name below it there are only names below it, if no smaller character than the
  dot occurs.\<close>

definition above_dot :: "string \<Rightarrow> bool" where
  "above_dot s \<longleftrightarrow> (\<forall>c\<in>set s. CHR ''.'' \<le> c)"

lemma between_prefix:
  fixes q d t :: "'a::linorder list"
  assumes "q \<le> d" "d \<le> q @ c # t" "\<forall>e\<in>set d. c \<le> e"
  shows "d = q \<or> (\<exists>t'. d = q @ c # t')"
  using assms
proof (induction q arbitrary: d)
  case Nil
  then show ?case by (cases d) auto
next
  case (Cons a q)
  then obtain d' where "d = a # d'" "q \<le> d'" "d' \<le> q @ c # t"
    by (cases d) (auto dest: less_le_trans)
  then show ?case using Cons by auto
qed

lemma covers_between:
  assumes "covers q x" "rev q \<le> rev d" "rev d \<le> rev x" "above_dot d"
  shows "covers q d"
proof (cases "rev x = rev q")
  case True
  then show ?thesis using assms(2,3) by (simp add: covers_rev)
next
  case False
  then obtain t where "rev x = rev q @ CHR ''.'' # t" using assms(1) by (auto simp: covers_rev)
  then show ?thesis
    using between_prefix [of "rev q" "rev d" "CHR ''.''" t] assms by (auto simp: above_dot_def covers_rev)
qed

abbreviation separate :: "string \<Rightarrow> string \<Rightarrow> bool" where
  "separate a b \<equiv> (covers a b \<longrightarrow> a = b)"

definition blocks :: "string set \<Rightarrow> string \<Rightarrow> bool" where
  "blocks K p \<longleftrightarrow> p \<in> K \<and> (\<forall>q\<in>K. rev q \<le> rev p \<and> (\<forall>x. rev p \<le> rev x \<longrightarrow> covers q x \<longrightarrow> covers p x))"

lemma blocks_step:
  assumes "blocks K p" "rev p \<le> rev d" "above_dot d" "\<not> HasSuffix d (''.'' @ p)"
  shows "blocks (insert d K) d"
proof -
  have "rev q \<le> rev d \<and> (\<forall>x. rev d \<le> rev x \<longrightarrow> covers q x \<longrightarrow> covers d x)" if q: "q \<in> K" for q
  proof (intro conjI allI impI)
    show qd: "rev q \<le> rev d" using assms(1,2) q by (auto simp: blocks_def)
    fix x assume x: "rev d \<le> rev x" "covers q x"
    have "covers q d" using covers_between [OF x(2) qd x(1) assms(3)] .
    then have "covers p d" using assms(1,2) q unfolding blocks_def by blast
    then have "d = p" using assms(4) by (simp add: covers_def)
    then show "covers d x" using assms(1) x q unfolding blocks_def by blast
  qed
  then show ?thesis unfolding blocks_def by simp
qed

lemma collapse_loop_separate:
  assumes "sorted (map rev (p # ds))" "\<forall>d\<in>set (p # ds). above_dot d" "blocks K p" "\<forall>q\<in>K. separate q p"
  shows "(\<forall>r\<in>set (collapse_loop (Some (''.'' @ p)) ds). \<forall>q\<in>K. separate q r)
    \<and> sorted_wrt separate (collapse_loop (Some (''.'' @ p)) ds)"
  using assms
proof (induction ds arbitrary: p K)
  case (Cons d ds)
  show ?case
  proof (cases "HasSuffix d (''.'' @ p)")
    case True
    then show ?thesis using Cons.IH [of p K] Cons.prems by simp
  next
    case False
    have pd: "rev p \<le> rev d" "above_dot d" using Cons.prems by auto
    note step = blocks_step [OF Cons.prems(3) pd False]
    have sep: "separate q d" if "q \<in> K" for q
    proof
      assume "covers q d"
      then have "covers p d" using Cons.prems(3) pd that unfolding blocks_def by blast
      then have "d = p" using False by (simp add: covers_def)
      then show "q = d" using Cons.prems(4) that \<open>covers q d\<close> by blast
    qed
    have "(\<forall>r\<in>set (collapse_loop (Some (''.'' @ d)) ds). \<forall>q\<in>insert d K. separate q r)
        \<and> sorted_wrt separate (collapse_loop (Some (''.'' @ d)) ds)"
      using Cons.IH [of d "insert d K"] Cons.prems step sep by simp
    then show ?thesis using False sep by simp
  qed
qed simp

lemma sorted_collapse_loop: "sorted (map rev ds) \<Longrightarrow> sorted (map rev (collapse_loop cur ds))"
  using set_collapse_loop by (induction ds arbitrary: cur) (auto dest!: set_mp)

lemma CollapseDomains_separate:
  assumes "\<forall>d\<in>set ds. above_dot d" "a \<in> set (CollapseDomains ds)" "b \<in> set (CollapseDomains ds)"
  shows "separate a b"
proof -
  define xs where "xs = sort_key rev ds"
  have xs: "sorted (map rev xs)" "\<forall>d\<in>set xs. above_dot d" using assms(1) by (simp_all add: xs_def)
  have ab: "a \<in> set (collapse_loop None xs)" "b \<in> set (collapse_loop None xs)"
    using assms(2,3) by (simp_all add: xs_def CollapseDomains_def sort_by_Less)
  then obtain p ds' where p: "xs = p # ds'" by (cases xs) auto
  have "blocks {p} p" by (simp add: blocks_def)
  then have sw: "sorted_wrt separate (collapse_loop None xs)"
    using collapse_loop_separate [of p ds' "{p}"] xs by (simp add: p)
  obtain i j where ij: "i < length (collapse_loop None xs)" "j < length (collapse_loop None xs)"
    "a = collapse_loop None xs ! i" "b = collapse_loop None xs ! j"
    using ab by (metis in_set_conv_nth)
  consider "i < j" | "i = j" | "j < i" by linarith
  then show ?thesis
  proof cases
    case 1
    then show ?thesis using sw ij by (simp add: sorted_wrt_iff_nth_less)
  next
    case 3
    then have "rev b \<le> rev a"
      using sorted_collapse_loop [OF xs(1), of None] ij by (simp add: sorted_wrt_iff_nth_less sorted_map)
    then show ?thesis using covers_order [of a b] by (metis order.antisym rev_rev_ident)
  qed (simp add: ij)
qed

subsection \<open>Lists with exclusions\<close>

text \<open>Go ranges over a map in some order: each key once.\<close>

definition iterates :: "('a set \<Rightarrow> 'a list) \<Rightarrow> bool" where
  "iterates ko \<longleftrightarrow> (\<forall>S. finite S \<longrightarrow> set (ko S) = S \<and> distinct (ko S))"

lemma iteratesD: "iterates ko \<Longrightarrow> finite S \<Longrightarrow> set (ko S) = S \<and> distinct (ko S)"
  by (simp add: iterates_def)

lemma iterates_sorted: "iterates (sorted_list_of_set :: string set \<Rightarrow> string list)"
  by (simp add: iterates_def)

text \<open>The names that remain of the included ones: the common part of the four zones.\<close>

definition remaining :: "(string set \<Rightarrow> string list) \<Rightarrow> string set \<Rightarrow> string set \<Rightarrow> string list" where
  "remaining ko inc exc = filter (\<lambda>d. d \<notin> exc) (CollapseDomains (ko inc @ ko exc))"

lemma remaining_subset:
  assumes "iterates ko" "finite inc" "finite exc"
  shows "set (remaining ko inc exc) \<subseteq> inc - exc"
  using set_CollapseDomains [of "ko inc @ ko exc"] assms by (auto simp: remaining_def iteratesD)

lemma remaining_covers:
  assumes "iterates ko" "finite inc" "finite exc" "d \<in> inc" "\<not> covered exc d"
  shows "covered (set (remaining ko inc exc)) d"
proof -
  obtain e where e: "e \<in> set (CollapseDomains (ko inc @ ko exc))" "covers e d"
    using CollapseDomains_covered [of d "ko inc @ ko exc"] assms by (auto simp: iteratesD covered_def)
  then have "e \<notin> exc" using assms(5) by (auto simp: covered_def)
  then show ?thesis using e by (auto simp: remaining_def covered_def)
qed

lemma remaining_excluded:
  assumes "iterates ko" "finite inc" "finite exc" "\<forall>d\<in>inc \<union> exc. above_dot d"
    and d: "d \<in> set (remaining ko inc exc)"
  shows "\<not> covered exc d"
proof
  let ?u = "ko inc @ ko exc"
  have u: "\<forall>d\<in>set ?u. above_dot d" using assms by (simp add: iteratesD)
  assume "covered exc d"
  then obtain e where e: "e \<in> exc" "covers e d" by (auto simp: covered_def)
  then obtain f where f: "f \<in> set (CollapseDomains ?u)" "covers f e"
    using CollapseDomains_covered [of e ?u] assms by (auto simp: iteratesD covered_def)
  have "d \<in> set (CollapseDomains ?u)" "d \<notin> exc" using d by (simp_all add: remaining_def)
  then have "f = d" using CollapseDomains_separate [OF u f(1)] covers_trans [OF f(2) e(2)] by blast
  then have "e = d" using f(2) e(2) by (metis covers_order order.antisym rev_rev_ident)
  then show False using e \<open>d \<notin> exc\<close> by simp
qed

lemma buildSimpleRPZ_remaining:
  "buildSimpleRPZ ko rules =
     (remaining ko (Domain ` {r \<in> set rules. \<not> IsEx r}) (Domain ` {r \<in> set rules. IsEx r}),
      CollapseDomains (ko (Domain ` {r \<in> set rules. IsEx r})))"
  by (simp add: buildSimpleRPZ_def remaining_def Let_def)

lemma collapse_covers_same: "set ds = E \<Longrightarrow> covered (set (CollapseDomains ds)) x \<longleftrightarrow> covered E x"
proof
  assume E: "set ds = E"
  show "covered E x" if "covered (set (CollapseDomains ds)) x"
    using that E set_CollapseDomains [of ds] by (auto simp: covered_def)
  show "covered (set (CollapseDomains ds)) x" if "covered E x"
    using that E CollapseDomains_covered [of _ ds] covers_trans by (metis covered_def)
qed

lemma iterates_mset: "iterates ko \<Longrightarrow> iterates ko' \<Longrightarrow> finite S \<Longrightarrow> mset (ko S) = mset (ko' S)"
  by (metis iteratesD set_eq_iff_mset_eq_distinct)

lemma CollapseDomains_ko:
  "iterates ko \<Longrightarrow> iterates ko' \<Longrightarrow> finite A \<Longrightarrow> finite B
   \<Longrightarrow> CollapseDomains (ko A @ ko B) = CollapseDomains (ko' A @ ko' B)"
  by (intro CollapseDomains_perm) (metis iterates_mset mset_append)

lemma CollapseDomains_ko1:
  "iterates ko \<Longrightarrow> iterates ko' \<Longrightarrow> finite A \<Longrightarrow> CollapseDomains (ko A) = CollapseDomains (ko' A)"
  by (intro CollapseDomains_perm) (metis iterates_mset)

abbreviation included :: "DomainRule list \<Rightarrow> string set" where
  "included rules \<equiv> Domain ` {r \<in> set rules. \<not> IsEx r}"

abbreviation excluded :: "DomainRule list \<Rightarrow> string set" where
  "excluded rules \<equiv> Domain ` {r \<in> set rules. IsEx r}"

lemma finite_rules [simp]: "finite (included rules)" "finite (excluded rules)"
  by simp_all

text \<open>C27: A deny zone built from a list of rules (\<^verbatim>\<open>buildSimpleRPZ\<close>) blocks only included names that are not
  themselves excluded, it blocks every included name that no exclusion covers (directly or through a
  parent domain), and its exception list covers exactly what the exclusions cover. The result does not
  depend on the order in which Go ranges over the two maps.\<close>

theorem buildSimpleRPZ_sound:
  assumes "iterates ko" "buildSimpleRPZ ko rules = (final, exc)"
  shows "set final \<subseteq> included rules - excluded rules
    \<and> (\<forall>d\<in>included rules. \<not> covered (excluded rules) d \<longrightarrow> covered (set final) d)
    \<and> (\<forall>x. covered (set exc) x \<longleftrightarrow> covered (excluded rules) x)
    \<and> (\<forall>ko'. iterates ko' \<longrightarrow> buildSimpleRPZ ko' rules = (final, exc))"
proof (intro conjI allI ballI impI)
  have eqs: "final = remaining ko (included rules) (excluded rules)" "exc = CollapseDomains (ko (excluded rules))"
    using assms(2) by (simp_all add: buildSimpleRPZ_remaining)
  show "set final \<subseteq> included rules - excluded rules"
    using remaining_subset [OF assms(1)] by (simp add: eqs)
  show "covered (set final) d" if "d \<in> included rules" "\<not> covered (excluded rules) d" for d
    using remaining_covers [OF assms(1) _ _ that] by (simp add: eqs)
  show "covered (set exc) x \<longleftrightarrow> covered (excluded rules) x" for x
    unfolding eqs by (rule collapse_covers_same) (simp add: iteratesD [OF assms(1)])
  show "buildSimpleRPZ ko' rules = (final, exc)" if "iterates ko'" for ko'
    unfolding buildSimpleRPZ_remaining eqs remaining_def
    using CollapseDomains_ko [OF that assms(1)] CollapseDomains_ko1 [OF that assms(1)] by simp
qed

text \<open>The zone can be computed with any lists that hold the names.\<close>

lemma buildSimpleRPZ_lists:
  "buildSimpleRPZ sorted_list_of_set rules =
     (let i = remdups (map Domain (filter (\<lambda>r. \<not> IsEx r) rules)); e = remdups (map Domain (filter IsEx rules))
      in (filter (\<lambda>d. d \<notin> set e) (CollapseDomains (i @ e)), CollapseDomains e))"
proof -
  let ?i = "remdups (map Domain (filter (\<lambda>r. \<not> IsEx r) rules))"
  let ?e = "remdups (map Domain (filter IsEx rules))"
  have i: "mset (sorted_list_of_set (included rules)) = mset ?i"
    using set_eq_iff_mset_eq_distinct [of "sorted_list_of_set (included rules)" ?i] by simp
  have e: "mset (sorted_list_of_set (excluded rules)) = mset ?e"
    using set_eq_iff_mset_eq_distinct [of "sorted_list_of_set (excluded rules)" ?e] by simp
  show ?thesis
    using CollapseDomains_perm [of "sorted_list_of_set (included rules) @ sorted_list_of_set (excluded rules)"
        "?i @ ?e"] CollapseDomains_perm [OF e] i e
    by (simp add: buildSimpleRPZ_def Let_def)
qed

text \<open>The rules of an example list: \<^verbatim>\<open>b.com\<close> is excluded, three names are included.\<close>

definition sampleRules :: "DomainRule list" where
  "sampleRules =
     [\<lparr>Domain = ''a.b.com'', IsEx = False\<rparr>, \<lparr>Domain = ''b.com'', IsEx = True\<rparr>,
      \<lparr>Domain = ''c.org'', IsEx = False\<rparr>, \<lparr>Domain = ''d.c.org'', IsEx = False\<rparr>]"

lemma sampleRules_zone: "buildSimpleRPZ sorted_list_of_set sampleRules = ([''c.org''], [''b.com''])"
  by (simp add: buildSimpleRPZ_lists sampleRules_def CollapseDomains_def sort_by_def Less_iff
      HasSuffix_def)

lemma rules_filter: "Domain ` {r \<in> set rules. P r} = set (map Domain (filter P rules))"
  by simp

lemma sampleRules_names:
  "included sampleRules = {''a.b.com'', ''c.org'', ''d.c.org''}" "excluded sampleRules = {''b.com''}"
  unfolding rules_filter by (simp_all add: sampleRules_def)

lemma sampleRules_excluded: "\<not> covered (excluded sampleRules) ''d.c.org''"
  by (simp add: sampleRules_names covered_def covers_def HasSuffix_def)

theorem buildSimpleRPZ_sound_witness: "covered {''c.org''} ''d.c.org''"
proof -
  have "\<forall>d\<in>included sampleRules. \<not> covered (excluded sampleRules) d \<longrightarrow> covered (set [''c.org'']) d"
    using buildSimpleRPZ_sound [OF iterates_sorted sampleRules_zone] by (elim conjE)
  then show ?thesis using sampleRules_excluded by (simp add: sampleRules_names)
qed

text \<open>C28: Provided no name has a character below the dot (a valid name can only have the hyphen there), the
  exclusions of a zone are strict: no blocked name lies below an excluded one, and no blocked name lies
  below another blocked name.\<close>

theorem buildSimpleRPZ_strict:
  assumes "iterates ko" "\<forall>r\<in>set rules. above_dot (Domain r)" "buildSimpleRPZ ko rules = (final, exc)"
  shows "\<forall>d\<in>set final. \<not> covered (excluded rules) d \<and> (\<forall>e\<in>set final. covers e d \<longrightarrow> e = d)"
proof (intro ballI conjI impI)
  let ?u = "ko (included rules) @ ko (excluded rules)"
  have final: "final = remaining ko (included rules) (excluded rules)"
    using assms(3) by (simp add: buildSimpleRPZ_remaining)
  have u: "\<forall>d\<in>set ?u. above_dot d" using assms(2) by (auto simp: iteratesD [OF assms(1)])
  fix d assume d: "d \<in> set final"
  show "\<not> covered (excluded rules) d"
    using remaining_excluded [OF assms(1), of "included rules" "excluded rules" d] assms(2) d
    by (auto simp: final)
  fix e assume "e \<in> set final" "covers e d"
  then show "e = d" using CollapseDomains_separate [OF u, of e d] d by (simp add: final remaining_def)
qed

lemma sampleRules_above: "\<forall>r\<in>set sampleRules. above_dot (Domain r)"
  by (simp add: sampleRules_def above_dot_def)

theorem buildSimpleRPZ_strict_witness: "\<not> covered (excluded sampleRules) ''c.org''"
  using buildSimpleRPZ_strict [OF iterates_sorted sampleRules_above sampleRules_zone] by simp


end
