(* ===== verification/DomainNames.thy ===== *)
theory DomainNames
  imports Domains
begin

text \<open>
  Names and filters of the list compiler: normalised names are safe to write into a zone file,
  normalising is idempotent, and the casino filter decides whether some part of a name is in the
  language of its regular expression.
\<close>

subsection \<open>Normalised names\<close>

lemma isAlnumOrU_ord:
  "isAlnumOrU c \<longleftrightarrow> 97 \<le> ord c \<and> ord c \<le> 122 \<or> 65 \<le> ord c \<and> ord c \<le> 90 \<or> 48 \<le> ord c \<and> ord c \<le> 57 \<or> ord c = 95"
proof -
  have "c = CHR ''_'' \<longleftrightarrow> (of_char c :: nat) = of_char (CHR ''_'')"
    by (simp only: of_char_eq_iff)
  then show ?thesis by (simp add: isAlnumOrU_def byte_range_def less_eq_char_def ord_def)
qed

text \<open>The characters a normalised name can have.\<close>

definition name_char :: "char \<Rightarrow> bool" where
  "name_char c \<longleftrightarrow> isAlnumOrU c \<or> c = CHR ''-'' \<or> c = CHR ''.''"

lemma isValidLabel_chars:
  assumes "isValidLabel l"
  shows "l \<noteq> [] \<and> length l \<le> 63 \<and> isAlnumOrU (hd l) \<and> isAlnumOrU (last l)
    \<and> (\<forall>c\<in>set l. isAlnumOrU c \<or> c = CHR ''-'')"
proof -
  have l: "l \<noteq> []" "length l \<le> 63" "isAlnumOrU (l ! 0)" "isAlnumOrU (l ! (length l - 1))"
    "\<forall>i\<in>{1..<length l - 1}. isAlnumOrU (l ! i) \<or> l ! i = CHR ''-''"
    using assms by (auto simp: isValidLabel_def Let_def list_all_iff split: if_splits)
  have "isAlnumOrU (l ! i) \<or> l ! i = CHR ''-''" if "i < length l" for i
    using l(3-5) that by (cases "i = 0 \<or> i = length l - 1") auto
  then have "\<forall>c\<in>set l. isAlnumOrU c \<or> c = CHR ''-''" by (metis in_set_conv_nth)
  then show ?thesis using l(1-4) by (simp add: hd_conv_nth last_conv_nth)
qed

lemma Split_chars: "c \<in> set s \<Longrightarrow> c = sep \<or> (\<exists>w\<in>set (Split s sep). c \<in> set w)"
  by (induction s) (auto split: list.splits)

lemma normalizeDomain_cases:
  assumes "normalizeDomain uni idna s = d" "d \<noteq> []"
  obtains x where "idna x = Some d" "\<forall>l\<in>set (Split d (CHR ''.'')). isValidLabel l"
    "x = TrimSet (TrimPrefix (ToLower uni (TrimSpace s)) ''*.'') ''.''" "Contains x ''.''" "length x \<le> 253"
    "\<not> ContainsAny (TrimPrefix (ToLower uni (TrimSpace s)) ''*.'') forbidden_chars"
  using assms by (auto simp: normalizeDomain_def Let_def list_all_iff split: if_splits option.splits)

lemma valid_name_chars:
  assumes "\<forall>l\<in>set (Split d (CHR ''.'')). isValidLabel l" "c \<in> set d"
  shows "name_char c"
  using Split_chars [OF assms(2), of "CHR ''.''"] assms(1) isValidLabel_chars by (auto simp: name_char_def)

subsection \<open>Canonical names\<close>

lemma name_char_forbidden: "c \<in> set forbidden_chars \<Longrightarrow> \<not> name_char c"
  by (auto simp: forbidden_chars_def name_char_def isAlnumOrU_def byte_range_def)

lemma name_char_graphic: "name_char c \<Longrightarrow> graphic c"
  by (auto simp: graphic_def name_char_def isAlnumOrU_ord) (simp_all add: ord_def)

lemma name_char_less: "name_char c \<Longrightarrow> ord c < 128"
  using name_char_graphic [of c] by (simp add: graphic_def)

text \<open>A name in canonical form.\<close>

definition canonical :: "string \<Rightarrow> bool" where
  "canonical d \<longleftrightarrow> (\<forall>l\<in>set (Split d (CHR ''.'')). isValidLabel l) \<and> CHR ''.'' \<in> set d \<and> length d \<le> 253
     \<and> map lower_ascii d = d \<and> hd d \<noteq> CHR ''.'' \<and> last d \<noteq> CHR ''.''"

lemma dropWhile_hd: "d \<noteq> [] \<Longrightarrow> \<not> P (hd d) \<Longrightarrow> dropWhile P d = d"
  by (cases d) auto

lemma TrimSet_id: "d \<noteq> [] \<Longrightarrow> hd d \<notin> set cs \<Longrightarrow> last d \<notin> set cs \<Longrightarrow> TrimSet d cs = d"
  by (simp add: TrimSet_def dropWhile_hd hd_rev)

lemma canonical_fixed:
  assumes "canonical d" "idna d = Some d"
  shows "normalizeDomain uni idna d = d"
proof -
  have chars: "\<forall>c\<in>set d. name_char c" using valid_name_chars assms(1) by (auto simp: canonical_def)
  have ne: "d \<noteq> []" using assms(1) by (auto simp: canonical_def)
  have lower: "ToLower uni (TrimSpace d) = d"
    using assms(1) chars name_char_less by (simp add: TrimSpace_graphic name_char_graphic ToLower_def canonical_def)
  have "\<not> HasPrefix d ''*.''"
  proof
    assume "HasPrefix d ''*.''"
    then have "CHR ''*'' \<in> set d" by (auto simp: HasPrefix_iff)
    then show False using chars by (auto simp: name_char_def isAlnumOrU_def byte_range_def)
  qed
  moreover have "\<not> ContainsAny d forbidden_chars"
    using chars name_char_forbidden by (auto simp: ContainsAny_def)
  moreover have "TrimSet d ''.'' = d" using assms(1) ne by (simp add: TrimSet_id canonical_def)
  ultimately show ?thesis
    using assms by (simp add: normalizeDomain_def lower TrimPrefix_def Let_def Contains_single canonical_def
      list_all_iff)
qed


lemma sample_name: "canonical ''ads.example.com''"
  by (simp add: canonical_def isValidLabel_def isAlnumOrU_def byte_range_def lower_ascii_def ord_def upt_rec)


text \<open>\<^verbatim>\<open>idna.ToASCII\<close> leaves a name of ASCII characters as it is, unless it refuses it.\<close>

definition ascii :: "string \<Rightarrow> bool" where
  "ascii s \<longleftrightarrow> (\<forall>c\<in>set s. ord c < 128)"

definition keeps_ascii :: "(string \<Rightarrow> string option) \<Rightarrow> bool" where
  "keeps_ascii idna \<longleftrightarrow> (\<forall>s. ascii s \<longrightarrow> idna s = None \<or> idna s = Some s)"

lemma set_TrimLeftSpace: "set (TrimLeftSpace s) \<subseteq> set s"
proof (induction s rule: TrimLeftSpace.induct)
  case (1 s)
  then show ?case by (subst TrimLeftSpace.simps) (fastforce split: option.splits dest: in_set_dropD)
qed

lemma set_TrimRightSpace: "set (TrimRightSpace s) \<subseteq> set s"
proof (induction s rule: TrimRightSpace.induct)
  case (1 s)
  then show ?case by (subst TrimRightSpace.simps) (fastforce split: option.splits dest: in_set_takeD)
qed

lemma set_TrimSpace: "set (TrimSpace s) \<subseteq> set s"
  unfolding TrimSpace_def using set_TrimLeftSpace set_TrimRightSpace by blast

lemma set_TrimSet: "set (TrimSet s cs) \<subseteq> set s"
  by (auto simp: TrimSet_def dest!: set_dropWhileD)

lemma set_TrimPrefix: "set (TrimPrefix s p) \<subseteq> set s"
  by (auto simp: TrimPrefix_def dest: in_set_dropD)

lemma lower_ascii_twice: "lower_ascii (lower_ascii c) = lower_ascii c"
  by (auto simp: lower_ascii_def ord_def)

lemma lower_ascii_less: "ord c < 128 \<Longrightarrow> ord (lower_ascii c) < 128"
  by (auto simp: lower_ascii_def ord_def)

lemma TrimSet_ends:
  assumes "TrimSet s cs \<noteq> []"
  shows "hd (TrimSet s cs) \<notin> set cs" "last (TrimSet s cs) \<notin> set cs"
proof -
  let ?d = "dropWhile (\<lambda>c. c \<in> set cs) s"
  let ?e = "dropWhile (\<lambda>c. c \<in> set cs) (rev ?d)"
  have e: "?e \<noteq> []" using assms by (simp add: TrimSet_def)
  then have ne: "?d \<noteq> []" by (metis dropWhile.simps(1) rev.simps(1))
  show "last (TrimSet s cs) \<notin> set cs" using hd_dropWhile [OF e] by (simp add: TrimSet_def last_rev)
  obtain p where "rev ?d = p @ ?e" by (metis takeWhile_dropWhile_id)
  then have "last ?e = last (rev ?d)" using e by (metis last_appendR)
  then have "hd (rev ?e) = hd ?d" by (simp add: hd_rev last_rev)
  then show "hd (TrimSet s cs) \<notin> set cs" using hd_dropWhile [OF ne] by (simp add: TrimSet_def)
qed

lemma normalize_ascii_canonical:
  assumes "ascii s" "keeps_ascii idna" "normalizeDomain uni idna s = d" "d \<noteq> []"
  shows "canonical d \<and> idna d = Some d"
proof -
  let ?t = "ToLower uni (TrimSpace s)"
  obtain x where x: "idna x = Some d" "\<forall>l\<in>set (Split d (CHR ''.'')). isValidLabel l"
    "x = TrimSet (TrimPrefix ?t ''*.'') ''.''" "Contains x ''.''" "length x \<le> 253"
    using normalizeDomain_cases [OF assms(3,4)] .
  have t: "?t = map lower_ascii (TrimSpace s)"
    using assms(1) set_TrimSpace by (auto simp: ToLower_def ascii_def)
  have sub: "set x \<subseteq> set ?t" unfolding x(3) using set_TrimSet set_TrimPrefix by blast
  have low: "lower_ascii c = c \<and> ord c < 128" if "c \<in> set x" for c
  proof -
    have "c \<in> lower_ascii ` set (TrimSpace s)" using that sub unfolding t by auto
    then obtain b where "b \<in> set s" "c = lower_ascii b" using set_TrimSpace [of s] by auto
    then show ?thesis using assms(1) lower_ascii_twice lower_ascii_less by (simp add: ascii_def)
  qed
  then have "ascii x" by (simp add: ascii_def)
  then have d: "d = x" using assms(2) x(1) by (auto simp: keeps_ascii_def)
  have "map lower_ascii x = x" using low by (simp add: map_idI)
  moreover have "hd x \<noteq> CHR ''.''" "last x \<noteq> CHR ''.''"
    using TrimSet_ends [of "TrimPrefix ?t ''*.''" "''.''"] assms(4) unfolding d x(3) by auto
  ultimately show ?thesis using x(1,2,4,5) by (auto simp: canonical_def d Contains_single)
qed



subsection \<open>Ad-block lines\<close>

lemma canonical_chars: "canonical d \<Longrightarrow> c \<in> set d \<Longrightarrow> name_char c"
  using valid_name_chars by (auto simp: canonical_def)

lemma Contains_chars: "Contains s p \<Longrightarrow> set p \<subseteq> set s"
  by (auto simp: Contains_iff)

lemma canonical_absent: "canonical d \<Longrightarrow> \<not> name_char c \<Longrightarrow> c \<notin> set d"
  using canonical_chars by blast

lemma not_name_chars [simp]:
  "\<not> name_char (CHR ''#'')" "\<not> name_char (CHR ''/'')" "\<not> name_char (CHR ''*'')" "\<not> name_char (CHR ''^'')"
  "\<not> name_char (CHR ''$'')" "\<not> name_char (CHR ''@'')" "\<not> name_char (CHR ''|'')"
  by (simp_all add: name_char_def isAlnumOrU_def byte_range_def)

lemma takeWhile_name:
  "canonical d \<Longrightarrow> takeWhile (\<lambda>c. c \<noteq> CHR ''^'' \<and> c \<noteq> CHR ''$'' \<and> c \<noteq> CHR ''*'') (d @ [CHR ''^'']) = d"
  using canonical_absent by (subst takeWhile_append2) auto

lemma IndexAny_name:
  assumes "canonical d"
  shows "IndexAny d ''^$*'' = None" "IndexAny (d @ ''^'') ''^$*'' = Some (length d)"
  using assms canonical_absent takeWhile_name [OF assms] by (auto simp: IndexAny_def ContainsAny_def)

lemma HasPrefix_absent: "hd p \<notin> set d \<Longrightarrow> p \<noteq> [] \<Longrightarrow> \<not> HasPrefix d p"
  by (auto simp: HasPrefix_iff)

lemma canonical_no_prefix:
  assumes "canonical d"
  shows "\<not> HasPrefix d ''@@||''" "\<not> HasPrefix d ''||''" "\<not> HasPrefix d ''@@''" "\<not> HasPrefix d ''*.''"
    "\<not> HasPrefix (d @ ''^'') ''*.''"
  using canonical_absent [OF assms] by (simp_all add: HasPrefix_absent)

lemma adblock_line:
  assumes "canonical d" "line \<in> {d, ''||'' @ d @ ''^'', ''@@||'' @ d @ ''^''}"
  shows "TrimSpace line = line" "\<not> Contains line ''##''" "\<not> Contains line ''#@#''"
proof -
  have "\<forall>c\<in>set line. graphic c" "CHR ''#'' \<notin> set line"
    using assms canonical_chars [OF assms(1), THEN name_char_graphic] canonical_absent [OF assms(1)]
    by (auto simp: graphic_def ord_def)
  then show "TrimSpace line = line" "\<not> Contains line ''##''" "\<not> Contains line ''#@#''"
    using Contains_chars [of line "''##''"] Contains_chars [of line "''#@#''"] by (auto simp: TrimSpace_graphic)
qed

text \<open>C32: The three forms of an ad-block line for a canonical name: a plain name takes the default of its file,
  \<^verbatim>\<open>||name^\<close> is a block rule and \<^verbatim>\<open>@@||name^\<close> an exception, in both cases whatever the default. So a
  \<^verbatim>\<open>||name^\<close> line in an exclude list is read as a rule that blocks the name.\<close>

theorem parseAdblockLine_forms:
  assumes "canonical d" "idna d = Some d"
  shows "parseAdblockLine uni idna d ex = Some \<lparr>Domain = d, IsEx = ex\<rparr>
    \<and> parseAdblockLine uni idna (''||'' @ d @ ''^'') ex = Some \<lparr>Domain = d, IsEx = False\<rparr>
    \<and> parseAdblockLine uni idna (''@@||'' @ d @ ''^'') ex = Some \<lparr>Domain = d, IsEx = True\<rparr>"
proof -
  note line = adblock_line [OF assms(1)]
  have d: "d \<noteq> []" "\<not> Contains d ''/''" "\<not> Contains (d @ ''^'') ''/''" "\<not> Contains d ''*''" "TrimSpace d = d"
    using assms(1) canonical_absent [OF assms(1)] line(1) [of d]
    by (auto simp: Contains_single canonical_def)
  note facts = d IndexAny_name [OF assms(1)] canonical_no_prefix [OF assms(1)] canonical_fixed [of d idna, OF assms]
  have "parseAdblockLine uni idna d ex = Some \<lparr>Domain = d, IsEx = ex\<rparr>"
    using line [of d] facts by (simp add: parseAdblockLine_def Let_def)
  moreover have "parseAdblockLine uni idna (''||'' @ d @ ''^'') ex = Some \<lparr>Domain = d, IsEx = False\<rparr>"
    using line [of "''||'' @ d @ ''^''"] facts by (simp add: parseAdblockLine_def Let_def HasPrefix_def)
  moreover have "parseAdblockLine uni idna (''@@||'' @ d @ ''^'') ex = Some \<lparr>Domain = d, IsEx = True\<rparr>"
    using line [of "''@@||'' @ d @ ''^''"] facts by (simp add: parseAdblockLine_def Let_def HasPrefix_def)
  ultimately show ?thesis by blast
qed

theorem parseAdblockLine_forms_witness:
  "parseAdblockLine (\<lambda>s. s) Some ''||ads.example.com^'' True = Some \<lparr>Domain = ''ads.example.com'', IsEx = False\<rparr>"
  using parseAdblockLine_forms [OF sample_name, of Some "\<lambda>s. s" True] by simp

subsection \<open>The casino filter\<close>

text \<open>The language of an expression, and what the filter means by a match.\<close>

inductive_set star :: "string set \<Rightarrow> string set" for L where
  star_nil: "[] \<in> star L"
| star_app: "a \<in> L \<Longrightarrow> b \<in> star L \<Longrightarrow> a @ b \<in> star L"

fun lang :: "rx \<Rightarrow> string set" where
  "lang Zero = {}"
| "lang Eps = {[]}"
| "lang (Set cs) = {[c] | c. c \<in> set cs}"
| "lang (Seq a b) = {u @ v | u v. u \<in> lang a \<and> v \<in> lang b}"
| "lang (Alt a b) = lang a \<union> lang b"
| "lang (Star a) = star (lang a)"

lemma nullable_lang: "nullable r \<longleftrightarrow> [] \<in> lang r"
  by (induction r) (auto intro: star_nil)

lemma star_ConsD: "w \<in> star L \<Longrightarrow> w = c # s \<Longrightarrow> \<exists>a b. s = a @ b \<and> c # a \<in> L \<and> b \<in> star L"
proof (induction arbitrary: s rule: star.induct)
  case (star_app a b)
  then show ?case by (cases a) auto
qed simp

lemma lang_Seq_Cons:
  "c # s \<in> lang (Seq a b) \<longleftrightarrow>
     (\<exists>u v. s = u @ v \<and> c # u \<in> lang a \<and> v \<in> lang b) \<or> [] \<in> lang a \<and> c # s \<in> lang b"
  by (auto simp: Cons_eq_append_conv)

lemma deriv_lang: "s \<in> lang (deriv c r) \<longleftrightarrow> c # s \<in> lang r"
proof (induction r arbitrary: s)
  case (Seq a b)
  have "s \<in> lang (deriv c (Seq a b)) \<longleftrightarrow>
      (\<exists>u v. s = u @ v \<and> u \<in> lang (deriv c a) \<and> v \<in> lang b) \<or> [] \<in> lang a \<and> s \<in> lang (deriv c b)"
    by (auto simp: nullable_lang)
  then show ?case unfolding lang_Seq_Cons Seq .
next
  case (Star a)
  have "s \<in> lang (deriv c (Star a)) \<longleftrightarrow> (\<exists>u v. s = u @ v \<and> c # u \<in> lang a \<and> v \<in> star (lang a))"
    using Star by auto
  also have "\<dots> \<longleftrightarrow> c # s \<in> star (lang a)"
    using star_ConsD [of "c # s" "lang a" c s] star_app [of "c # _" "lang a"] by auto
  finally show ?case by simp
qed auto

lemma match_prefix_iff: "match_prefix r s \<longleftrightarrow> (\<exists>m b. s = m @ b \<and> m \<in> lang r)"
proof (induction s arbitrary: r)
  case Nil
  then show ?case by (simp add: match_prefix.simps [of r] nullable_lang)
next
  case (Cons c s)
  have "match_prefix r (c # s) \<longleftrightarrow> [] \<in> lang r \<or> (\<exists>m b. s = m @ b \<and> c # m \<in> lang r)"
    using Cons by (simp add: match_prefix.simps [of r] nullable_lang deriv_lang)
  also have "\<dots> \<longleftrightarrow> (\<exists>m b. c # s = m @ b \<and> m \<in> lang r)"
    by (auto simp: Cons_eq_append_conv)
  finally show ?case .
qed

lemma MatchString_iff: "MatchString r s \<longleftrightarrow> (\<exists>a m b. s = a @ m @ b \<and> m \<in> lang r)"
proof (induction s)
  case (Cons c s)
  have "MatchString r (c # s) \<longleftrightarrow>
      (\<exists>m b. c # s = m @ b \<and> m \<in> lang r) \<or> (\<exists>a m b. s = a @ m @ b \<and> m \<in> lang r)"
    using Cons by (simp add: match_prefix_iff)
  also have "\<dots> \<longleftrightarrow> (\<exists>a m b. c # s = a @ m @ b \<and> m \<in> lang r)"
    by (metis append_Cons append_Nil append_eq_Cons_conv)
  finally show ?case .
qed (simp add: match_prefix_iff)

text \<open>A lower bound for the length of the words of an expression.\<close>

fun minlen :: "rx \<Rightarrow> nat option" where
  "minlen Zero = None"
| "minlen Eps = Some 0"
| "minlen (Set cs) = Some 1"
| "minlen (Seq a b) = (case (minlen a, minlen b) of (Some m, Some n) \<Rightarrow> Some (m + n) | _ \<Rightarrow> None)"
| "minlen (Alt a b) =
     (case (minlen a, minlen b) of (Some m, Some n) \<Rightarrow> Some (min m n) | (None, x) \<Rightarrow> x | (x, None) \<Rightarrow> x)"
| "minlen (Star a) = Some 0"

lemma minlen_lang: "w \<in> lang r \<Longrightarrow> \<exists>n. minlen r = Some n \<and> n \<le> length w"
proof (induction r arbitrary: w)
  case (Seq a b)
  then obtain u v where "w = u @ v" "u \<in> lang a" "v \<in> lang b" by auto
  then show ?case using Seq.IH(1) [of u] Seq.IH(2) [of v] by auto
next
  case (Alt a b)
  then consider "w \<in> lang a" | "w \<in> lang b" by auto
  then show ?case
  proof cases
    case 1
    then show ?thesis using Alt.IH(1) [OF 1] by (cases "minlen b") auto
  next
    case 2
    then show ?thesis using Alt.IH(2) [OF 2] by (cases "minlen a") auto
  qed
qed auto

lemma lang_seqs_Cons: "u \<in> lang r \<Longrightarrow> v \<in> lang (seqs rs) \<Longrightarrow> u @ v \<in> lang (seqs (r # rs))"
  by (auto simp: seqs_def)

lemma lang_seqs_Nil: "[] \<in> lang (seqs [])"
  by (simp add: seqs_def)

lemma lang_cls: "c \<in> set cs \<Longrightarrow> [c] \<in> lang (cls cs)"
  by (auto simp: cls_def Let_def)

lemma lang_lit: "s \<in> lang (lit s)"
proof (induction s)
  case (Cons c s)
  then show ?case using lang_seqs_Cons [of "[c]" "cls [c]" s] lang_cls [of c "[c]"] by (simp add: lit_def)
qed (simp add: lit_def seqs_def)

lemma lang_alts: "lang (alts rs) = (\<Union>r\<in>set rs. lang r)"
  by (induction rs) (auto simp: alts_def)

lemma star_replicate: "[c] \<in> L \<Longrightarrow> replicate n c \<in> star L"
  using star_app [of "[c]" L] by (induction n) (auto intro: star_nil)

lemma lang_dashed: "a @ replicate n (CHR ''-'') @ b \<in> lang (dashed a b)"
  unfolding dashed_def
  using lang_seqs_Cons [OF lang_lit lang_seqs_Cons [OF _ lang_seqs_Cons [OF lang_lit lang_seqs_Nil]]]
    star_replicate [of "CHR ''-''" "lang (Set ''-'')" n] by force

lemma CasinoRegex_words:
  "lang (dashed ''x'' ''slot'') \<subseteq> lang CasinoRegex" "lang (lit ''bonus'') \<subseteq> lang CasinoRegex"
  unfolding CasinoRegex_def lang_alts by (rule UN_upper, simp)+

lemma minlen_CasinoRegex: "minlen CasinoRegex = Some 4"
  by (simp add: CasinoRegex_def alts_def seqs_def lit_def dashed_def gapped_def cls_def Plus_def bytes_rx_def
      Let_def)



end
