(* ===== verification/Spec2Isabelle.thy ===== *)
theory Spec2Isabelle
  imports PoolBatch PoolSpec PoolRange PoolMerge PoolSteps SyncTransfer ProxyProps DomainProps DomainNames
begin

text \<open>
  Verification of NextPATH, a DNS-based traffic router. The engine answers DNS queries with \<^emph>\<open>fake\<close>
  addresses from a private pool, keeps the mapping between fake and real addresses, installs packet
  filter rules that translate one into the other, and replicates the mapping between nodes. A list
  compiler turns domain and address lists into policy zones and route files.

  \<^bold>\<open>Parts of the program and their theories.\<close>

  \<^item> \<^verbatim>\<open>internal/dnsengine/ippool.go\<close>, the pool: \<^verbatim>\<open>IPPool\<close> holds the record of 64 shards, the global
    maps, the range and the clock, and one definition per operation. \<^verbatim>\<open>PoolInv\<close> has the invariant (the
    two directions of the mapping are inverse, every lease is in the shard of its key) and the moves that
    all operations consist of, \<^verbatim>\<open>PoolOps\<close> shows that every operation is a sequence of such moves,
    \<^verbatim>\<open>PoolAlloc\<close> and \<^verbatim>\<open>PoolBatch\<close> treat allocation and rollback, \<^verbatim>\<open>PoolSpec\<close> refines an abstract
    lease table, \<^verbatim>\<open>PoolRange\<close> places allocated addresses in the announced prefix, \<^verbatim>\<open>PoolMerge\<close> treats
    replication as the merge of registers, and \<^verbatim>\<open>PoolSteps\<close> closes the operations into a step
    relation with reachability.
  \<^item> \<^verbatim>\<open>internal/dnsengine/sync.go\<close>, the peers: \<^verbatim>\<open>Sync\<close> models the manager, its connections as a store
    indexed by connection numbers, and the handlers; \<^verbatim>\<open>SyncConn\<close> has handshake, tie-break and sending,
    \<^verbatim>\<open>SyncNode\<close> the invariant of a running node, \<^verbatim>\<open>SyncTransfer\<close> the composition of two nodes and the pool.
  \<^item> \<^verbatim>\<open>internal/dnsengine/proxy.go\<close>, the DNS handler: \<^verbatim>\<open>Proxy\<close> and \<^verbatim>\<open>ProxyProps\<close>.
  \<^item> \<^verbatim>\<open>internal/parser/compiler.go\<close> and \<^verbatim>\<open>filter.go\<close>, domain names: \<^verbatim>\<open>Domains\<close>, with the order, collapsing
    and zones in \<^verbatim>\<open>DomainProps\<close> and normalised names, ad-block lines and the casino filter in
    \<^verbatim>\<open>DomainNames\<close>.
  \<^item> Go's language and standard library: \<^verbatim>\<open>Prelude\<close> (words, lists, the generic locales), \<^verbatim>\<open>GoStrings\<close>,
    \<^verbatim>\<open>GoNet\<close>, \<^verbatim>\<open>GoNetText\<close>, \<^verbatim>\<open>GoCIDR\<close>, \<^verbatim>\<open>GoText\<close> (strings, addresses and their text forms).

  \<^bold>\<open>Conventions.\<close> Byte slices and strings are lists, nil is \<^const>\<open>None\<close> where the code tests for it, machine
  integers are words, time is an integer number of nanoseconds. The order in which Go ranges over a
  map is an argument. Clocks, random numbers and the results of code outside the repository are
  arguments as well, and what is assumed of them is a hypothesis of the theorem that needs it. A
  critical section is one step.

  \<^bold>\<open>Bounds.\<close> All recursion is structural or has a termination proof; no fuel is used. Probing for a free
  slot is bounded by the code itself (1024 attempts).

  \<^bold>\<open>Not modelled.\<close> Reading, writing and downloading of list files and the address part of the compiler, the
  construction of netlink messages (\<^verbatim>\<open>internal/netlink\<close>), the main programs, the HTTP page of the
  metrics, and the logger.
\<close>

end
